theory Spec2Isabelle
  imports
    Main
    "HOL-Library.Mapping"
    "HOL-Library.AList_Mapping"
    "HOL-Library.Char_ord"
    "HOL-Library.List_Lexorder"
    "HOL-Library.Multiset"
begin

section \<open>Strings\<close>

text \<open>
  A Go string is a sequence of bytes, and so is an Isabelle \<open>string\<close>. The helpers below
  are the functions of the Go standard library that \<^verbatim>\<open>main.go\<close> calls, written out
  on bytes.
\<close>

definition HasPrefix :: "string \<Rightarrow> string \<Rightarrow> bool" where
  "HasPrefix s p = (take (length p) s = p)"

definition HasSuffix :: "string \<Rightarrow> string \<Rightarrow> bool" where
  "HasSuffix s p = (length p \<le> length s \<and> drop (length s - length p) s = p)"

fun Contains :: "string \<Rightarrow> string \<Rightarrow> bool" where
  "Contains [] sub = (sub = [])"
| "Contains (c # s) sub = (HasPrefix (c # s) sub \<or> Contains s sub)"

fun Join :: "string list \<Rightarrow> string \<Rightarrow> string" where
  "Join [] sep = []"
| "Join [a] sep = a"
| "Join (a # b # rest) sep = a @ sep @ Join (b # rest) sep"

text \<open>
  \<^verbatim>\<open>strings.Split\<close> with a separator of one byte, the only way the source calls it
  (\<^verbatim>\<open>","\<close> and \<^verbatim>\<open>"."\<close>). The result always has at least one field.
\<close>

fun Split :: "string \<Rightarrow> char \<Rightarrow> string list" where
  "Split [] sep = [[]]"
| "Split (c # s) sep =
     (if c = sep then [] # Split s sep
      else (case Split s sep of
              [] \<Rightarrow> [[c]]
            | field # fields \<Rightarrow> (c # field) # fields))"

text \<open>
  \<^verbatim>\<open>unicode.IsSpace\<close> holds of the code points U+0009..U+000D, U+0020, U+0085, U+00A0,
  U+1680, U+2000..U+200A, U+2028, U+2029, U+202F, U+205F and U+3000. Their UTF-8 encodings:
\<close>

definition space_runes :: "string list" where
  "space_runes =
     [[CHR 0x09], [CHR 0x0A], [CHR 0x0B], [CHR 0x0C], [CHR 0x0D], [CHR 0x20],
      [CHR 0xC2, CHR 0x85], [CHR 0xC2, CHR 0xA0],
      [CHR 0xE1, CHR 0x9A, CHR 0x80],
      [CHR 0xE2, CHR 0x80, CHR 0x80], [CHR 0xE2, CHR 0x80, CHR 0x81],
      [CHR 0xE2, CHR 0x80, CHR 0x82], [CHR 0xE2, CHR 0x80, CHR 0x83],
      [CHR 0xE2, CHR 0x80, CHR 0x84], [CHR 0xE2, CHR 0x80, CHR 0x85],
      [CHR 0xE2, CHR 0x80, CHR 0x86], [CHR 0xE2, CHR 0x80, CHR 0x87],
      [CHR 0xE2, CHR 0x80, CHR 0x88], [CHR 0xE2, CHR 0x80, CHR 0x89],
      [CHR 0xE2, CHR 0x80, CHR 0x8A],
      [CHR 0xE2, CHR 0x80, CHR 0xA8], [CHR 0xE2, CHR 0x80, CHR 0xA9],
      [CHR 0xE2, CHR 0x80, CHR 0xAF],
      [CHR 0xE2, CHR 0x81, CHR 0x9F],
      [CHR 0xE3, CHR 0x80, CHR 0x80]]"

text \<open>
  \<^verbatim>\<open>strings.TrimSpace\<close> decodes runes from the left, then from the right, and cuts while
  the rune is a space. No encoding above is a prefix of another and none of their
  continuation bytes starts a rune, so cutting the encodings as byte prefixes and byte
  suffixes removes the same bytes.
\<close>

function TrimLeftSpace :: "string \<Rightarrow> string" where
  "TrimLeftSpace s =
     (case find (HasPrefix s) space_runes of
        None \<Rightarrow> s
      | Some r \<Rightarrow> if r = [] \<or> length s < length r then s
                  else TrimLeftSpace (drop (length r) s))"
  by pat_completeness auto
termination
  by (relation "measure length") (auto simp: neq_Nil_conv)

function TrimRightSpace :: "string \<Rightarrow> string" where
  "TrimRightSpace s =
     (case find (HasSuffix s) space_runes of
        None \<Rightarrow> s
      | Some r \<Rightarrow> if r = [] \<or> length s < length r then s
                  else TrimRightSpace (take (length s - length r) s))"
  by pat_completeness auto
termination
  by (relation "measure length") (auto simp: neq_Nil_conv)

declare TrimLeftSpace.simps [simp del] TrimRightSpace.simps [simp del]

definition TrimSpace :: "string \<Rightarrow> string" where
  "TrimSpace s = TrimRightSpace (TrimLeftSpace s)"

text \<open>The verb \<^verbatim>\<open>%d\<close> (and \<^verbatim>\<open>%v\<close> on an integer): decimal digits, with a sign.\<close>

function show_digits :: "int \<Rightarrow> string" where
  "show_digits n =
     (if n < 10 then [''0123456789'' ! nat n]
      else show_digits (n div 10) @ [''0123456789'' ! nat (n mod 10)])"
  by pat_completeness auto
termination
  by (relation "measure nat") auto

declare show_digits.simps [simp del]

definition show_int :: "int \<Rightarrow> string" where
  "show_int i = (if i < 0 then ''-'' @ show_digits (- i) else show_digits i)"

text \<open>The verb \<^verbatim>\<open>%v\<close> on a slice of strings: the elements between brackets.\<close>

definition show_strings :: "string list \<Rightarrow> string" where
  "show_strings xs = ''['' @ Join xs '' '' @ '']''"

text \<open>
  \<^verbatim>\<open>net.JoinHostPort\<close>, as it is from Go 1.21 on, the version the repository asks for: a
  host that holds a colon is taken for an IPv6 literal and put in brackets.
\<close>

definition JoinHostPort :: "string \<Rightarrow> string \<Rightarrow> string" where
  "JoinHostPort host port =
     (if CHR '':'' \<in> set host
      then ''['' @ host @ '']:'' @ port
      else host @ '':'' @ port)"

section \<open>The DNS library and the operating system\<close>

text \<open>
  The program talks to the package \<^verbatim>\<open>github.com/miekg/dns\<close>. A query is a message with
  one question; a reply carries a response code and an answer section. Of the resource
  records only the type matters to the program, and for an A record its address, kept
  here in the textual form that \<^verbatim>\<open>a.A.String()\<close> gives.
\<close>

datatype Msg = Question (Name: string) (Qtype: nat)

definition TypeA :: nat where
  "TypeA = 1"

datatype RR = A string | CNAME string | Other_RR nat

record Reply =
  Rcode :: int
  Answer :: "RR list"

definition RcodeSuccess :: int where
  "RcodeSuccess = 0"

text \<open>
  What lies outside the program is a parameter of the model: the state \<open>'w\<close> of the
  outside world (the network and the clock) and the calls that read or change it.
  \<open>Fqdn\<close> is \<^verbatim>\<open>dns.Fqdn\<close>. \<open>Exchange\<close> is \<^verbatim>\<open>client.Exchange(msg, resolver)\<close>, bounded by the
  client's timeout: it returns either an error (\<open>Inl\<close>, with its message) or a reply.
  \<open>Unix_now\<close> is \<^verbatim>\<open>time.Now().Unix()\<close> and \<open>Getpid\<close> is \<^verbatim>\<open>os.Getpid()\<close>. \<open>Open\<close> is \<^verbatim>\<open>os.Open\<close>
  followed by a \<^verbatim>\<open>bufio.Scanner\<close> over the file: the error of opening, or the lines the
  scanner yields and the error that \<^verbatim>\<open>scanner.Err()\<close> reports after the last of them, if
  any. \<open>OpenFile\<close> is \<^verbatim>\<open>os.OpenFile\<close> on the output file: its error, if any.
\<close>

record 'w platform =
  Fqdn :: "string \<Rightarrow> string"
  Exchange :: "Msg \<Rightarrow> string \<Rightarrow> 'w \<Rightarrow> (string + Reply) \<times> 'w"
  Unix_now :: "'w \<Rightarrow> int"
  Getpid :: int
  Open :: "string \<Rightarrow> string + string list \<times> string option"
  OpenFile :: "string \<Rightarrow> string option"

text \<open>
  What a run does is a list of events, in the order in which they happen: an exchange
  with a resolver, recorded with the outcome the library returned; a line written to the
  error stream or to standard output; the call \<^verbatim>\<open>flag.PrintDefaults()\<close>; a receive from
  the limiter (\<open>Tick\<close>); the start of a worker for a name (\<open>Go\<close>); a line sent to the
  results channel.
\<close>

datatype event =
    Exchanged Msg string "string + Reply"
  | Stderr string
  | Stdout string
  | PrintDefaults
  | Tick
  | Go string
  | Sent string

section \<open>The enumerator\<close>

record DNSConfig =
  Resolvers :: "string list"
  RateLimit :: int
  Timeout :: int
  WildcardCheck :: bool
  Verbose :: bool
  OutputFile :: string

text \<open>
  Of \<^verbatim>\<open>DNSEnumerator\<close> the model keeps the configuration and the map \<^verbatim>\<open>wildcardIPs\<close>;
  the client is the \<open>Exchange\<close> of the platform, and the model runs one thread at a time,
  so the mutex has nothing to guard.
\<close>

record DNSEnumerator =
  Config :: DNSConfig
  wildcardIPs :: "(string, bool) mapping"
  outputFile :: bool

subsection \<open>Resolve\<close>

text \<open>The answer loop of \<^verbatim>\<open>Resolve\<close>: the addresses of the A records, in answer order.\<close>

fun answer_ips :: "RR list \<Rightarrow> string list" where
  "answer_ips [] = []"
| "answer_ips (A a # rest) = a # answer_ips rest"
| "answer_ips (_ # rest) = answer_ips rest"

text \<open>
  The loop over \<^verbatim>\<open>d.Config.Resolvers\<close>. An error of the exchange logs (when verbose) and
  continues with the next resolver; a reply returns from \<^verbatim>\<open>Resolve\<close>, with an error when
  its response code is not success. Falling out of the loop returns the error
  \<^verbatim>\<open>all resolvers failed\<close>. The result is Go's pair \<^verbatim>\<open>([]string, error)\<close>: \<open>Inl\<close> the error
  message (the addresses are then \<^verbatim>\<open>nil\<close>), \<open>Inr\<close> the addresses.
\<close>

fun Resolve_loop ::
  "'w platform \<Rightarrow> DNSConfig \<Rightarrow> Msg \<Rightarrow> string list \<Rightarrow> 'w \<Rightarrow> (string + string list) \<times> event list \<times> 'w"
where
  "Resolve_loop P c msg [] w = (Inl ''all resolvers failed'', [], w)"
| "Resolve_loop P c msg (resolver # rest) w =
     (case Exchange P msg resolver w of
        (Inl err, w1) \<Rightarrow>
          (case Resolve_loop P c msg rest w1 of
             (r, evs, w2) \<Rightarrow>
               (r,
                Exchanged msg resolver (Inl err) #
                (if Verbose c
                 then [Stderr (''Resolver '' @ resolver @ '' failed: '' @ err @ [CHR 0x0A])]
                 else []) @ evs,
                w2))
      | (Inr resp, w1) \<Rightarrow>
          if Rcode resp \<noteq> RcodeSuccess
          then (Inl (''DNS error: '' @ show_int (Rcode resp)),
                [Exchanged msg resolver (Inr resp)], w1)
          else (Inr (answer_ips (Answer resp)), [Exchanged msg resolver (Inr resp)], w1))"

definition Resolve ::
  "'w platform \<Rightarrow> DNSEnumerator \<Rightarrow> string \<Rightarrow> 'w \<Rightarrow> (string + string list) \<times> event list \<times> 'w"
where
  "Resolve P d domain w =
     Resolve_loop P (Config d) (Question (Fqdn P domain) TypeA) (Resolvers (Config d)) w"

text \<open>Reading a trace: the exchanges made, and the lines sent to the results channel.\<close>

fun exchanges :: "event list \<Rightarrow> (Msg \<times> string \<times> (string + Reply)) list" where
  "exchanges [] = []"
| "exchanges (Exchanged m r out # evs) = (m, r, out) # exchanges evs"
| "exchanges (_ # evs) = exchanges evs"

definition query :: "Msg \<times> string \<times> (string + Reply) \<Rightarrow> Msg" where
  "query x = fst x"

definition endpoint :: "Msg \<times> string \<times> (string + Reply) \<Rightarrow> string" where
  "endpoint x = fst (snd x)"

definition completed :: "Msg \<times> string \<times> (string + Reply) \<Rightarrow> bool" where
  "completed x = (case snd (snd x) of Inl err \<Rightarrow> False | Inr resp \<Rightarrow> True)"

text \<open>What \<^verbatim>\<open>Resolve\<close> makes of a reply.\<close>

definition of_reply :: "Reply \<Rightarrow> string + string list" where
  "of_reply resp =
     (if Rcode resp \<noteq> RcodeSuccess then Inl (''DNS error: '' @ show_int (Rcode resp))
      else Inr (answer_ips (Answer resp)))"

fun sent :: "event list \<Rightarrow> string list" where
  "sent [] = []"
| "sent (Sent line # evs) = line # sent evs"
| "sent (_ # evs) = sent evs"

fun stderr :: "event list \<Rightarrow> string list" where
  "stderr [] = []"
| "stderr (Stderr line # evs) = line # stderr evs"
| "stderr (_ # evs) = stderr evs"

subsection \<open>Wildcard detection\<close>

text \<open>
  \<^verbatim>\<open>wildcardIPs\<close> is a \<^verbatim>\<open>map[string]bool\<close>: \<^verbatim>\<open>len\<close> counts its keys, and reading a key
  that is absent gives \<^verbatim>\<open>false\<close>.
\<close>

fun add_ips :: "(string, bool) mapping \<Rightarrow> string list \<Rightarrow> (string, bool) mapping" where
  "add_ips m [] = m"
| "add_ips m (ip # ips) = add_ips (Mapping.update ip True m) ips"

fun probe_loop ::
  "'w platform \<Rightarrow> DNSEnumerator \<Rightarrow> string \<Rightarrow> string list \<Rightarrow> 'w \<Rightarrow> DNSEnumerator \<times> event list \<times> 'w"
where
  "probe_loop P d domain [] w = (d, [], w)"
| "probe_loop P d domain (sub # rest) w =
     (let testDomain = sub @ ''.'' @ domain in
      case Resolve P d testDomain w of
        (r, evs, w1) \<Rightarrow>
          (let d1 = (case r of
                       Inl err \<Rightarrow> d
                     | Inr ips \<Rightarrow>
                         if length ips > 0
                         then d\<lparr>wildcardIPs := add_ips (wildcardIPs d) ips\<rparr>
                         else d)
           in case probe_loop P d1 domain rest w1 of
                (d2, evs2, w2) \<Rightarrow> (d2, evs @ evs2, w2)))"

text \<open>
  \<^verbatim>\<open>getWildcardIPs\<close> ranges over the map, in an order that Go leaves open; the model takes
  the keys in increasing order. The list is only printed.
\<close>

definition getWildcardIPs :: "DNSEnumerator \<Rightarrow> string list" where
  "getWildcardIPs d = Mapping.ordered_keys (wildcardIPs d)"

definition testSubdomains :: "'w platform \<Rightarrow> 'w \<Rightarrow> string list" where
  "testSubdomains P w =
     [''rand'' @ show_int (Unix_now P w) @ ''-'' @ show_int (Getpid P),
      ''probably-does-not-exist-123'',
      ''test-subdomain-wildcard-456'']"

definition DetectWildcard ::
  "'w platform \<Rightarrow> DNSEnumerator \<Rightarrow> string \<Rightarrow> 'w \<Rightarrow> DNSEnumerator \<times> event list \<times> 'w"
where
  "DetectWildcard P d domain w =
     (if \<not> WildcardCheck (Config d) then (d, [], w)
      else
        case probe_loop P d domain (testSubdomains P w) w of
          (d1, evs, w1) \<Rightarrow>
            (d1,
             evs @
             (if \<not> Mapping.is_empty (wildcardIPs d1) \<and> Verbose (Config d1)
              then [Stderr (''[!] Wildcard DNS detected. These IPs will be filtered: '' @
                            show_strings (getWildcardIPs d1) @ [CHR 0x0A])]
              else []),
             w1))"

fun wildcard_scan :: "(string, bool) mapping \<Rightarrow> string list \<Rightarrow> bool" where
  "wildcard_scan m [] = False"
| "wildcard_scan m (ip # ips) =
     (if Mapping.lookup_default False m ip then True else wildcard_scan m ips)"

definition isWildcardResponse :: "DNSEnumerator \<Rightarrow> string list \<Rightarrow> bool" where
  "isWildcardResponse d ips =
     (if Mapping.is_empty (wildcardIPs d) then False
      else wildcard_scan (wildcardIPs d) ips)"

text \<open>
  The set that the map stands for: the addresses it maps to \<^verbatim>\<open>true\<close>.
\<close>

definition WildcardIPSet :: "DNSEnumerator \<Rightarrow> string set" where
  "WildcardIPSet d = {ip. Mapping.lookup (wildcardIPs d) ip = Some True}"

text \<open>The addresses that a call of \<^verbatim>\<open>Resolve\<close> returned: none when it returned an error.\<close>

definition resolved_ips :: "string + string list \<Rightarrow> string set" where
  "resolved_ips r = (case r of Inl err \<Rightarrow> {} | Inr ips \<Rightarrow> set ips)"

subsection \<open>The worker\<close>

text \<open>
  \<^verbatim>\<open>WriteOutput\<close> is what the consumer of the results channel does with each line it
  receives: a line on standard output and, with an output file, the same line there.
\<close>

datatype written = To_stdout string | To_file string

definition WriteOutput :: "DNSEnumerator \<Rightarrow> string \<Rightarrow> written list" where
  "WriteOutput d result =
     To_stdout (result @ [CHR 0x0A]) #
     (if outputFile d then [To_file (result @ [CHR 0x0A])] else [])"

definition ProcessDomain ::
  "'w platform \<Rightarrow> DNSEnumerator \<Rightarrow> string \<Rightarrow> 'w \<Rightarrow> event list \<times> 'w"
where
  "ProcessDomain P d domain w =
     (case Resolve P d domain w of
        (Inl err, evs, w1) \<Rightarrow>
          (evs @
           (if Verbose (Config d)
            then [Stderr (''Error resolving '' @ domain @ '': '' @ err @ [CHR 0x0A])]
            else []),
           w1)
      | (Inr ips, evs, w1) \<Rightarrow>
          if WildcardCheck (Config d) \<and> isWildcardResponse d ips
          then (evs @
                (if Verbose (Config d)
                 then [Stderr (''Filtered wildcard response for '' @ domain @ '': '' @
                               show_strings ips @ [CHR 0x0A])]
                 else []),
                w1)
          else (evs @ [Sent (domain @ '' ['' @ Join ips '', '' @ '']'')], w1))"

text \<open>
  What one worker can send for its name: nothing, or the line of the name with a list of
  addresses.
\<close>

definition line_of :: "string \<Rightarrow> string list option \<Rightarrow> string list" where
  "line_of name res =
     (case res of None \<Rightarrow> [] | Some ips \<Rightarrow> [name @ '' ['' @ Join ips '', '' @ '']''])"

section \<open>The dispatch loops\<close>

text \<open>
  \<^verbatim>\<open>time.Second / time.Duration(rate)\<close> is a division of 64-bit integers, which panics on
  a zero divisor and otherwise truncates towards zero. \<^verbatim>\<open>time.Tick\<close> returns \<^verbatim>\<open>nil\<close> for
  a period that is not positive, and a receive from a \<^verbatim>\<open>nil\<close> channel blocks for ever.
\<close>

definition Second :: int where
  "Second = 1000000000"

definition quo :: "int \<Rightarrow> int \<Rightarrow> int" where
  "quo a b = sgn a * sgn b * (\<bar>a\<bar> div \<bar>b\<bar>)"

definition time_Tick :: "int \<Rightarrow> int option" where
  "time_Tick period = (if period \<le> 0 then None else Some period)"

datatype outcome = Returned | Panicked | Blocked

text \<open>
  A loop reads the lines that the scanner yields. The statement \<^verbatim>\<open>go func(dmn) {...}\<close>
  starts a worker that runs \<^verbatim>\<open>ProcessDomain\<close> once; the model runs that worker to its
  end at the place where it is started.
\<close>

definition baseDomain_of :: "string \<Rightarrow> string option" where
  "baseDomain_of domain =
     (let parts = Split domain CHR ''.'' in
      if length parts \<ge> 2
      then Some (parts ! (length parts - 2) @ ''.'' @ parts ! (length parts - 1))
      else None)"

fun Enumerate_loop ::
  "'w platform \<Rightarrow> int option \<Rightarrow> DNSEnumerator \<Rightarrow> string list \<Rightarrow> 'w \<Rightarrow>
     outcome \<times> DNSEnumerator \<times> event list \<times> 'w"
where
  "Enumerate_loop P limiter d [] w = (Returned, d, [], w)"
| "Enumerate_loop P limiter d (text # rest) w =
     (let domain = TrimSpace text in
      if domain = [] then Enumerate_loop P limiter d rest w
      else
        case (if WildcardCheck (Config d)
              then (case baseDomain_of domain of
                      Some baseDomain \<Rightarrow> DetectWildcard P d baseDomain w
                    | None \<Rightarrow> (d, [], w))
              else (d, [], w)) of
          (d1, evs1, w1) \<Rightarrow>
            (case limiter of
               None \<Rightarrow> (Blocked, d1, evs1, w1)
             | Some period \<Rightarrow>
                 (case ProcessDomain P d1 domain w1 of
                    (evs2, w2) \<Rightarrow>
                      (case Enumerate_loop P limiter d1 rest w2 of
                         (out, d3, evs3, w3) \<Rightarrow>
                           (out, d3, evs1 @ [Tick, Go domain] @ evs2 @ evs3, w3)))))"

definition EnumerateFromReader ::
  "'w platform \<Rightarrow> DNSEnumerator \<Rightarrow> string list \<Rightarrow> 'w \<Rightarrow>
     outcome \<times> DNSEnumerator \<times> event list \<times> 'w"
where
  "EnumerateFromReader P d reader w =
     (if RateLimit (Config d) = 0 then (Panicked, d, [], w)
      else Enumerate_loop P (time_Tick (quo Second (RateLimit (Config d)))) d reader w)"

fun Bruteforce_loop ::
  "'w platform \<Rightarrow> int option \<Rightarrow> DNSEnumerator \<Rightarrow> string \<Rightarrow> string list \<Rightarrow> 'w \<Rightarrow>
     outcome \<times> event list \<times> 'w"
where
  "Bruteforce_loop P limiter d domain [] w = (Returned, [], w)"
| "Bruteforce_loop P limiter d domain (text # rest) w =
     (let sub = TrimSpace text in
      if sub = [] then Bruteforce_loop P limiter d domain rest w
      else
        let fullDomain = sub @ ''.'' @ domain in
        case limiter of
          None \<Rightarrow> (Blocked, [], w)
        | Some period \<Rightarrow>
            (case ProcessDomain P d fullDomain w of
               (evs1, w1) \<Rightarrow>
                 (case Bruteforce_loop P limiter d domain rest w1 of
                    (out, evs2, w2) \<Rightarrow> (out, [Tick, Go fullDomain] @ evs1 @ evs2, w2))))"

definition Bruteforce ::
  "'w platform \<Rightarrow> DNSEnumerator \<Rightarrow> string \<Rightarrow> string \<Rightarrow> 'w \<Rightarrow>
     outcome \<times> DNSEnumerator \<times> event list \<times> 'w"
where
  "Bruteforce P d domain wordlistPath w =
     (case DetectWildcard P d domain w of
        (d1, evs1, w1) \<Rightarrow>
          (case Open P wordlistPath of
             Inl err \<Rightarrow>
               (Returned, d1,
                evs1 @ [Stderr (''Error opening wordlist: '' @ err @ [CHR 0x0A])], w1)
           | Inr (file, scan_err) \<Rightarrow>
               if RateLimit (Config d1) = 0 then (Panicked, d1, evs1, w1)
               else
                 (case Bruteforce_loop P (time_Tick (quo Second (RateLimit (Config d1))))
                         d1 domain file w1 of
                    (Returned, evs2, w2) \<Rightarrow>
                      (Returned, d1,
                       evs1 @ evs2 @
                       (case scan_err of
                          None \<Rightarrow> []
                        | Some err \<Rightarrow>
                            [Stderr (''Error reading wordlist: '' @ err @ [CHR 0x0A])]),
                       w2)
                  | (out, evs2, w2) \<Rightarrow> (out, d1, evs1 @ evs2, w2))))"

text \<open>The names for which a worker is started, in the order in which they are started.\<close>

fun spawned :: "event list \<Rightarrow> string list" where
  "spawned [] = []"
| "spawned (Go name # evs) = name # spawned evs"
| "spawned (_ # evs) = spawned evs"

section \<open>Start-up\<close>

fun scan_resolvers :: "string list \<Rightarrow> string list" where
  "scan_resolvers [] = []"
| "scan_resolvers (text # rest) =
     (let resolver = TrimSpace text in
      if resolver \<noteq> [] \<and> \<not> HasPrefix resolver ''#''
      then (if \<not> Contains resolver '':'' then JoinHostPort resolver ''53'' else resolver) #
           scan_resolvers rest
      else scan_resolvers rest)"

definition LoadResolversFromFile :: "'w platform \<Rightarrow> string \<Rightarrow> string + string list" where
  "LoadResolversFromFile P filename =
     (case Open P filename of
        Inl err \<Rightarrow> Inl err
      | Inr (file, scan_err) \<Rightarrow>
          (case scan_err of
             Some err \<Rightarrow> Inl err
           | None \<Rightarrow> Inr (scan_resolvers file)))"

definition NewDNSEnumerator :: "'w platform \<Rightarrow> DNSConfig \<Rightarrow> string + DNSEnumerator" where
  "NewDNSEnumerator P config =
     (if OutputFile config \<noteq> []
      then (case OpenFile P (OutputFile config) of
              Some err \<Rightarrow> Inl (''error opening output file: '' @ err)
            | None \<Rightarrow> Inr \<lparr>Config = config, wildcardIPs = Mapping.empty, outputFile = True\<rparr>)
      else Inr \<lparr>Config = config, wildcardIPs = Mapping.empty, outputFile = False\<rparr>)"

record flags =
  f_domain :: string
  f_wordlist :: string
  f_resolverFile :: string
  f_resolverList :: string
  f_rateLimit :: int
  f_timeout :: int
  f_noWildcard :: bool
  f_verbose :: bool
  f_version :: bool
  f_outputFile :: string

text \<open>
  How the process ends: \<^verbatim>\<open>os.Exit\<close> with a status (returning from \<^verbatim>\<open>main\<close> is status 0),
  a panic, or a main goroutine that blocks for ever.
\<close>

datatype ending = Exit int | Panic | Hang

record stdin =
  piped :: bool
  content :: "string list"

definition usage :: "event list" where
  "usage =
     [Stderr (''DNS Tool - Fast DNS resolution and subdomain enumeration'' @ [CHR 0x0A]),
      Stderr (''Usage: dns-tool -d example.com -w wordlist.txt -r resolvers.txt'' @ [CHR 0x0A]),
      Stderr (''       subfinder -d example.com | dns-tool -r resolvers.txt'' @ [CHR 0x0A]),
      Stderr (''       cat domains.txt | dns-tool -r resolvers.txt'' @ [CHR 0x0A]),
      Stderr [CHR 0x0A],
      Stderr (''Options:'' @ [CHR 0x0A]),
      PrintDefaults]"

definition ending_of :: "outcome \<Rightarrow> ending" where
  "ending_of out = (case out of Returned \<Rightarrow> Exit 0 | Panicked \<Rightarrow> Panic | Blocked \<Rightarrow> Hang)"

definition main_resolvers :: "'w platform \<Rightarrow> flags \<Rightarrow> string + string list" where
  "main_resolvers P f =
     (if f_resolverFile f \<noteq> []
      then LoadResolversFromFile P (f_resolverFile f)
      else Inr (Split (f_resolverList f) CHR '',''))"

definition main_config :: "flags \<Rightarrow> string list \<Rightarrow> DNSConfig" where
  "main_config f resolvers =
     \<lparr>Resolvers = resolvers, RateLimit = f_rateLimit f, Timeout = f_timeout f * Second,
      WildcardCheck = \<not> f_noWildcard f, Verbose = f_verbose f,
      OutputFile = f_outputFile f\<rparr>"

definition main_run ::
  "'w platform \<Rightarrow> flags \<Rightarrow> stdin \<Rightarrow> DNSEnumerator \<Rightarrow> 'w \<Rightarrow> ending \<times> event list \<times> 'w"
where
  "main_run P f inp enumerator w =
     (if f_domain f \<noteq> [] \<and> f_wordlist f \<noteq> []
      then (case Bruteforce P enumerator (f_domain f) (f_wordlist f) w of
              (out, d1, evs, w1) \<Rightarrow> (ending_of out, evs, w1))
      else if piped inp
      then (case EnumerateFromReader P enumerator (content inp) w of
              (out, d1, evs, w1) \<Rightarrow> (ending_of out, evs, w1))
      else (Exit 1, usage, w))"

definition main :: "'w platform \<Rightarrow> flags \<Rightarrow> stdin \<Rightarrow> 'w \<Rightarrow> ending \<times> event list \<times> 'w" where
  "main P f inp w =
     (if f_version f then (Exit 0, [Stdout (''DNS Tool v1.0.0'' @ [CHR 0x0A])], w)
      else
        case main_resolvers P f of
          Inl err \<Rightarrow>
            (Exit 1, [Stderr (''Error loading resolvers from file: '' @ err @ [CHR 0x0A])], w)
        | Inr resolvers \<Rightarrow>
            if length resolvers = 0
            then (Exit 1, [Stderr (''No DNS resolvers specified'' @ [CHR 0x0A])], w)
            else
              (case NewDNSEnumerator P (main_config f resolvers) of
                 Inl err \<Rightarrow>
                   (Exit 1,
                    [Stderr (''Error initializing DNS enumerator: '' @ err @ [CHR 0x0A])], w)
               | Inr enumerator \<Rightarrow> main_run P f inp enumerator w))"

section \<open>Workers that run later\<close>

text \<open>
  The loops above run each worker at the place where the \<^verbatim>\<open>go\<close> statement starts it. In
  the program a worker runs at some later time, while the loop goes on reading lines and
  other workers run. The relation below lets every started worker wait: a state holds
  the lines not yet read, the enumerator, the outside world, the names of the workers
  started and not yet run, and the events so far. A step reads a blank line, or reads a
  line, takes a tick of the limiter and starts a worker, or runs one of the workers that
  wait. \<open>runs P mode s0 s\<close> says that the state \<open>s\<close> is reached from \<open>s0\<close>. The limiter is
  taken to deliver ticks; the call of \<^verbatim>\<open>DetectWildcard\<close> and the call of \<^verbatim>\<open>ProcessDomain\<close>
  are single steps.
\<close>

datatype mode = Streaming | Bruteforcing string

record 'w pool =
  unread :: "string list"
  enum :: DNSEnumerator
  world :: 'w
  waiting :: "string list"
  events :: "event list"

text \<open>The name under which a line is resolved, and what the loop does before the tick.\<close>

definition name_of :: "mode \<Rightarrow> string \<Rightarrow> string" where
  "name_of mode sub =
     (case mode of Streaming \<Rightarrow> sub | Bruteforcing domain \<Rightarrow> sub @ ''.'' @ domain)"

definition admit ::
  "'w platform \<Rightarrow> mode \<Rightarrow> DNSEnumerator \<Rightarrow> string \<Rightarrow> 'w \<Rightarrow> DNSEnumerator \<times> event list \<times> 'w"
where
  "admit P mode d sub w =
     (case mode of
        Streaming \<Rightarrow>
          (if WildcardCheck (Config d)
           then (case baseDomain_of sub of
                   Some baseDomain \<Rightarrow> DetectWildcard P d baseDomain w
                 | None \<Rightarrow> (d, [], w))
           else (d, [], w))
      | Bruteforcing domain \<Rightarrow> (d, [], w))"

inductive runs :: "'w platform \<Rightarrow> mode \<Rightarrow> 'w pool \<Rightarrow> 'w pool \<Rightarrow> bool"
  for P :: "'w platform" and mode :: mode and s0 :: "'w pool"
where
  init: "runs P mode s0 s0"
| blank:
    "runs P mode s0 s \<Longrightarrow> unread s = ln # rest \<Longrightarrow> TrimSpace ln = [] \<Longrightarrow>
     runs P mode s0 (s\<lparr>unread := rest\<rparr>)"
| start:
    "runs P mode s0 s \<Longrightarrow> unread s = ln # rest \<Longrightarrow> TrimSpace ln \<noteq> [] \<Longrightarrow>
     admit P mode (enum s) (TrimSpace ln) (world s) = (d1, evs1, w1) \<Longrightarrow>
     runs P mode s0
       \<lparr>unread = rest, enum = d1, world = w1,
        waiting = waiting s @ [name_of mode (TrimSpace ln)],
        events = events s @ evs1 @ [Tick, Go (name_of mode (TrimSpace ln))]\<rparr>"
| work:
    "runs P mode s0 s \<Longrightarrow> waiting s = before @ name # after \<Longrightarrow>
     ProcessDomain P (enum s) name (world s) = (evs, w1) \<Longrightarrow>
     runs P mode s0 (s\<lparr>world := w1, waiting := before @ after, events := events s @ evs\<rparr>)"

section \<open>The limiter\<close>

text \<open>
  Reading a trace for the limiter. A list of events is \<open>quiet\<close> when it holds no receive
  from the limiter and no start of a worker; it is \<open>gated\<close> when every start of a worker
  comes directly after a receive from the limiter (the flag of \<open>gate\<close> says whether the
  event before was such a receive); \<open>ticks\<close> counts the receives.
\<close>

fun quiet :: "event list \<Rightarrow> bool" where
  "quiet [] = True"
| "quiet (Tick # evs) = False"
| "quiet (Go name # evs) = False"
| "quiet (_ # evs) = quiet evs"







section \<open>A platform for concrete runs\<close>

text \<open>
  A small outside world on which the functions above can be run. Its state counts the
  exchanges made so far. The resolver \<^verbatim>\<open>192.0.2.1:53\<close> never answers; every other resolver
  knows the zone below, answers every name under \<^verbatim>\<open>wild.test\<close> with \<^verbatim>\<open>203.0.113.9\<close>, and
  answers any other name with the response code 3 (\<^verbatim>\<open>NXDOMAIN\<close>).
\<close>

definition stub_zone :: "string \<Rightarrow> Reply" where
  "stub_zone name =
     (if name = ''www.example.com.''
      then \<lparr>Rcode = 0, Answer = [CNAME ''web.example.com.'', A ''10.0.0.2'', A ''10.0.0.3'']\<rparr>
      else if name = ''alias.example.com.''
      then \<lparr>Rcode = 0, Answer = [CNAME ''elsewhere.example.net.'']\<rparr>
      else if HasSuffix name ''.wild.test.''
      then \<lparr>Rcode = 0, Answer = [A ''203.0.113.9'']\<rparr>
      else \<lparr>Rcode = 3, Answer = []\<rparr>)"

definition stub_files :: "string \<Rightarrow> string + string list \<times> string option" where
  "stub_files path =
     (if path = ''resolvers.txt''
      then Inr ([''# public resolvers'', ''192.0.2.1'', [], ''  192.0.2.2:5353  '',
                 ''fe80::1%eth0'', ''host%eth0''], None)
      else if path = ''words.txt''
      then Inr ([''www'', ''  '', ''#api'', ''alias ''], None)
      else Inl (''open '' @ path @ '': no such file or directory''))"

definition stub :: "nat platform" where
  "stub =
     \<lparr>Fqdn = (\<lambda>s. if HasSuffix s ''.'' then s else s @ ''.''),
      Exchange = (\<lambda>msg resolver w.
        if resolver = ''192.0.2.1:53'' then (Inl ''i/o timeout'', Suc w)
        else (Inr (stub_zone (Name msg)), Suc w)),
      Unix_now = (\<lambda>w. 1700000000 + int w),
      Getpid = 4242,
      Open = stub_files,
      OpenFile = (\<lambda>path. None)\<rparr>"

definition stub_config :: DNSConfig where
  "stub_config =
     \<lparr>Resolvers = [''192.0.2.1:53'', ''192.0.2.2:53'', ''192.0.2.3:53''], RateLimit = 10,
      Timeout = 2 * Second, WildcardCheck = True, Verbose = False, OutputFile = []\<rparr>"

definition stub_enumerator :: DNSEnumerator where
  "stub_enumerator = \<lparr>Config = stub_config, wildcardIPs = Mapping.empty, outputFile = False\<rparr>"


text \<open>
  A command line for brute-force mode whose wordlist does not exist:
  \<^verbatim>\<open>-d example.com -w missing.txt -resolvers 192.0.2.1:53,192.0.2.2:53\<close>.
\<close>

definition stub_flags :: flags where
  "stub_flags =
     \<lparr>f_domain = ''example.com'', f_wordlist = ''missing.txt'', f_resolverFile = [],
      f_resolverList = ''192.0.2.1:53,192.0.2.2:53'', f_rateLimit = 10, f_timeout = 2,
      f_noWildcard = False, f_verbose = False, f_version = False, f_outputFile = []\<rparr>"

definition stub_stdin :: stdin where
  "stub_stdin = \<lparr>piped = False, content = []\<rparr>"

section \<open>Properties of traces\<close>

lemma exchanges_append: "exchanges (xs @ ys) = exchanges xs @ exchanges ys"
  by (induction xs rule: exchanges.induct) simp_all

lemma sent_append: "sent (xs @ ys) = sent xs @ sent ys"
  by (induction xs rule: sent.induct) simp_all

lemma stderr_append: "stderr (xs @ ys) = stderr xs @ stderr ys"
  by (induction xs rule: stderr.induct) simp_all

section \<open>Properties of Resolve\<close>

text \<open>One turn of the loop: the exchange failed and the loop goes on, or it gave a reply.\<close>

lemma Resolve_loop_Cons:
  assumes "Resolve_loop P c msg (resolver # rest) w = (r, evs, w')"
  obtains (failed) err w1 evs2 where
      "Exchange P msg resolver w = (Inl err, w1)"
      "Resolve_loop P c msg rest w1 = (r, evs2, w')"
      "exchanges evs = (msg, resolver, Inl err) # exchanges evs2"
      "sent evs = sent evs2"
    | (replied) resp where
      "Exchange P msg resolver w = (Inr resp, w')"
      "r = of_reply resp"
      "exchanges evs = [(msg, resolver, Inr resp)]"
      "sent evs = []"
proof (cases "Exchange P msg resolver w")
  case (Pair out w1)
  show ?thesis
  proof (cases out)
    case (Inl err)
    obtain r2 evs2 w2 where rec: "Resolve_loop P c msg rest w1 = (r2, evs2, w2)"
      by (cases "Resolve_loop P c msg rest w1") auto
    with assms Pair Inl show ?thesis
      by (intro failed[of err w1 evs2]) (auto simp: exchanges_append sent_append)
  next
    case (Inr resp)
    with assms Pair show ?thesis
      by (intro replied[of resp]) (auto simp: of_reply_def split: if_splits)
  qed
qed

lemma Resolve_loop_endpoints:
  "Resolve_loop P c msg rs w = (r, evs, w') \<Longrightarrow>
   map endpoint (exchanges evs) = take (length (exchanges evs)) rs"
proof (induction rs arbitrary: w evs)
  case Nil
  then show ?case by simp
next
  case (Cons resolver rest)
  from Cons.prems show ?case
  proof (cases rule: Resolve_loop_Cons)
    case (failed err w1 evs2)
    with Cons.IH[OF failed(2)] show ?thesis by (simp add: endpoint_def)
  next
    case (replied resp)
    then show ?thesis by (simp add: endpoint_def)
  qed
qed

lemma Resolve_loop_query:
  "Resolve_loop P c msg rs w = (r, evs, w') \<Longrightarrow> x \<in> set (exchanges evs) \<Longrightarrow> query x = msg"
proof (induction rs arbitrary: w evs)
  case Nil
  then show ?case by simp
next
  case (Cons resolver rest)
  from Cons.prems(1) show ?case
  proof (cases rule: Resolve_loop_Cons)
    case (failed err w1 evs2)
    with Cons.IH[OF failed(2)] Cons.prems(2) show ?thesis by (auto simp: query_def)
  next
    case (replied resp)
    with Cons.prems(2) show ?thesis by (simp add: query_def)
  qed
qed

lemma Resolve_loop_completed_last:
  "Resolve_loop P c msg rs w = (r, evs, w') \<Longrightarrow> i < length (exchanges evs) \<Longrightarrow>
   completed (exchanges evs ! i) \<Longrightarrow> Suc i = length (exchanges evs)"
proof (induction rs arbitrary: w evs i)
  case Nil
  then show ?case by simp
next
  case (Cons resolver rest)
  from Cons.prems(1) show ?case
  proof (cases rule: Resolve_loop_Cons)
    case (failed err w1 evs2)
    show ?thesis
    proof (cases i)
      case 0
      with Cons.prems(3) failed(3) show ?thesis by (simp add: completed_def)
    next
      case (Suc j)
      with Cons.prems(2,3) failed(3) Cons.IH[OF failed(2), of j] show ?thesis by simp
    qed
  next
    case (replied resp)
    with Cons.prems(2) show ?thesis by simp
  qed
qed

lemma Resolve_loop_exhausted:
  "Resolve_loop P c msg rs w = (r, evs, w') \<Longrightarrow> \<forall>x \<in> set (exchanges evs). \<not> completed x \<Longrightarrow>
   r = Inl ''all resolvers failed'' \<and> length (exchanges evs) = length rs"
proof (induction rs arbitrary: w evs)
  case Nil
  then show ?case by simp
next
  case (Cons resolver rest)
  from Cons.prems(1) show ?case
  proof (cases rule: Resolve_loop_Cons)
    case (failed err w1 evs2)
    with Cons.IH[OF failed(2)] Cons.prems(2) show ?thesis by simp
  next
    case (replied resp)
    with Cons.prems(2) show ?thesis by (simp add: completed_def)
  qed
qed

lemma Resolve_loop_replied:
  "Resolve_loop P c msg rs w = (r, evs, w') \<Longrightarrow> exchanges evs \<noteq> [] \<Longrightarrow>
   snd (snd (last (exchanges evs))) = Inr resp \<Longrightarrow> r = of_reply resp"
proof (induction rs arbitrary: w evs)
  case Nil
  then show ?case by simp
next
  case (Cons resolver rest)
  from Cons.prems(1) show ?case
  proof (cases rule: Resolve_loop_Cons)
    case (failed err w1 evs2)
    with Cons.IH[OF failed(2)] Cons.prems(2,3) show ?thesis
      by (cases "exchanges evs2 = []") simp_all
  next
    case (replied resp')
    with Cons.prems(3) show ?thesis by simp
  qed
qed

lemma Resolve_loop_sent:
  "Resolve_loop P c msg rs w = (r, evs, w') \<Longrightarrow> sent evs = []"
proof (induction rs arbitrary: w evs)
  case Nil
  then show ?case by simp
next
  case (Cons resolver rest)
  from Cons.prems(1) show ?case
    by (cases rule: Resolve_loop_Cons) (use Cons.IH in auto)
qed


lemma Resolve_loop_length:
  "Resolve_loop P c msg rs w = (r, evs, w') \<Longrightarrow> length (exchanges evs) \<le> length rs"
proof -
  assume run: "Resolve_loop P c msg rs w = (r, evs, w')"
  have "length (map endpoint (exchanges evs)) = length (take (length (exchanges evs)) rs)"
    by (simp only: Resolve_loop_endpoints[OF run])
  then show ?thesis by simp
qed

lemma Resolve_loop_completed_is_last:
  assumes "Resolve_loop P c msg rs w = (r, evs, w')"
    and "x \<in> set (exchanges evs)" and "completed x"
  shows "x = last (exchanges evs)"
proof -
  from assms(2) obtain i where i: "i < length (exchanges evs)" "exchanges evs ! i = x"
    by (auto simp: in_set_conv_nth)
  with Resolve_loop_completed_last[OF assms(1), of i] assms(3)
  have len: "Suc i = length (exchanges evs)" by simp
  then have "exchanges evs \<noteq> []" by auto
  then have "last (exchanges evs) = exchanges evs ! (length (exchanges evs) - 1)"
    by (rule last_conv_nth)
  also have "length (exchanges evs) - 1 = i" using len by simp
  finally show ?thesis using i(2) by simp
qed

lemma answer_ips_A: "answer_ips rrs = [ip. A ip \<leftarrow> rrs]"
  by (induction rrs rule: answer_ips.induct) simp_all

lemma isl_of_reply: "isl (of_reply resp) \<longleftrightarrow> Rcode resp \<noteq> RcodeSuccess"
  by (simp add: of_reply_def)

text \<open>
  C1. \<^verbatim>\<open>Resolve\<close> queries the resolvers in the order of the list, one exchange per
  resolver, each for the A records of the name. An exchange that gave a reply is the last
  exchange made, so no later resolver is contacted after it, and the result is what that
  reply gives. An exchange that failed is followed by the next resolver: when no exchange
  gave a reply, every resolver of the list has been tried and the result is the error
  \<^verbatim>\<open>all resolvers failed\<close>, not the error of an exchange.
\<close>

theorem Resolve_failover:
  assumes "Resolve P d domain w = (r, evs, w')"
  shows "map endpoint (exchanges evs) = take (length (exchanges evs)) (Resolvers (Config d)) \<and>
         (\<forall>x \<in> set (exchanges evs). query x = Question (Fqdn P domain) TypeA) \<and>
         (\<forall>i < length (exchanges evs).
             completed (exchanges evs ! i) \<longrightarrow> Suc i = length (exchanges evs)) \<and>
         ((\<forall>x \<in> set (exchanges evs). \<not> completed x) \<longrightarrow>
             length (exchanges evs) = length (Resolvers (Config d)) \<and>
             r = Inl ''all resolvers failed'') \<and>
         (\<forall>resp. exchanges evs \<noteq> [] \<and> snd (snd (last (exchanges evs))) = Inr resp \<longrightarrow>
             r = of_reply resp)"
proof -
  from assms have run:
    "Resolve_loop P (Config d) (Question (Fqdn P domain) TypeA) (Resolvers (Config d)) w =
       (r, evs, w')"
    by (simp add: Resolve_def)
  show ?thesis
    using Resolve_loop_endpoints[OF run] Resolve_loop_query[OF run]
      Resolve_loop_completed_last[OF run] Resolve_loop_exhausted[OF run]
      Resolve_loop_replied[OF run]
    by blast
qed


theorem Resolve_failover_witness:
  "Resolve stub stub_enumerator ''www.example.com'' 0 =
     (Inr [''10.0.0.2'', ''10.0.0.3''],
      [Exchanged (Question ''www.example.com.'' 1) ''192.0.2.1:53'' (Inl ''i/o timeout''),
        Exchanged (Question ''www.example.com.'' 1) ''192.0.2.2:53''
          (Inr (stub_zone ''www.example.com.''))],
      2) \<and>
   exchanges
      [Exchanged (Question ''www.example.com.'' 1) ''192.0.2.1:53'' (Inl ''i/o timeout''),
        Exchanged (Question ''www.example.com.'' 1) ''192.0.2.2:53''
          (Inr (stub_zone ''www.example.com.''))] \<noteq> [] \<and>
   snd (snd (last (exchanges
      [Exchanged (Question ''www.example.com.'' 1) ''192.0.2.1:53'' (Inl ''i/o timeout''),
        Exchanged (Question ''www.example.com.'' 1) ''192.0.2.2:53''
          (Inr (stub_zone ''www.example.com.''))]))) = Inr (stub_zone ''www.example.com.'') \<and>
   map endpoint (exchanges
      [Exchanged (Question ''www.example.com.'' 1) ''192.0.2.1:53'' (Inl ''i/o timeout''),
        Exchanged (Question ''www.example.com.'' 1) ''192.0.2.2:53''
          (Inr (stub_zone ''www.example.com.''))]) =
   take (length (exchanges
      [Exchanged (Question ''www.example.com.'' 1) ''192.0.2.1:53'' (Inl ''i/o timeout''),
        Exchanged (Question ''www.example.com.'' 1) ''192.0.2.2:53''
          (Inr (stub_zone ''www.example.com.''))]))
     (Resolvers (Config stub_enumerator)) \<and>
   Inr [''10.0.0.2'', ''10.0.0.3''] = of_reply (stub_zone ''www.example.com.'')"
proof -
  have run: "Resolve stub stub_enumerator ''www.example.com'' 0 =
     (Inr [''10.0.0.2'', ''10.0.0.3''],
      [Exchanged (Question ''www.example.com.'' 1) ''192.0.2.1:53'' (Inl ''i/o timeout''),
        Exchanged (Question ''www.example.com.'' 1) ''192.0.2.2:53''
          (Inr (stub_zone ''www.example.com.''))],
      2)"
    by (simp add: Resolve_def stub_def stub_enumerator_def stub_config_def stub_zone_def
          HasSuffix_def TypeA_def RcodeSuccess_def numeral_2_eq_2)
  have reply: "exchanges
      [Exchanged (Question ''www.example.com.'' 1) ''192.0.2.1:53'' (Inl ''i/o timeout''),
        Exchanged (Question ''www.example.com.'' 1) ''192.0.2.2:53''
          (Inr (stub_zone ''www.example.com.''))] \<noteq> [] \<and>
    snd (snd (last (exchanges
      [Exchanged (Question ''www.example.com.'' 1) ''192.0.2.1:53'' (Inl ''i/o timeout''),
        Exchanged (Question ''www.example.com.'' 1) ''192.0.2.2:53''
          (Inr (stub_zone ''www.example.com.''))]))) = Inr (stub_zone ''www.example.com.'')"
    by simp
  from run reply Resolve_failover[OF run] show ?thesis by blast
qed

lemma Resolve_loop_isl:
  assumes run: "Resolve_loop P c msg rs w = (r, evs, w')"
  shows "isl r \<longleftrightarrow>
           (\<forall>x \<in> set (exchanges evs). \<not> completed x) \<or>
           (\<exists>resp. exchanges evs \<noteq> [] \<and> snd (snd (last (exchanges evs))) = Inr resp \<and>
                   Rcode resp \<noteq> RcodeSuccess)"
proof (cases "\<forall>x \<in> set (exchanges evs). \<not> completed x")
  case True
  with Resolve_loop_exhausted[OF run] show ?thesis by simp
next
  case False
  then obtain x where x: "x \<in> set (exchanges evs)" "completed x" by blast
  then have last: "x = last (exchanges evs)" and ne: "exchanges evs \<noteq> []"
    using Resolve_loop_completed_is_last[OF run] by auto
  from x(2) obtain resp where resp: "snd (snd x) = Inr resp"
    by (auto simp: completed_def split: sum.splits)
  with last have "snd (snd (last (exchanges evs))) = Inr resp" by simp
  with Resolve_loop_replied[OF run ne] have "r = of_reply resp" by simp
  with False ne resp last show ?thesis by (auto simp: isl_of_reply)
qed

text \<open>
  C2. \<^verbatim>\<open>Resolve\<close> returns an error in exactly two cases: no exchange gave a reply, or
  the last exchange gave a reply whose response code is not success. In the second case
  the error is that of the response code, and the reply is the last exchange made, by
  value and by position: no further resolver is tried. In the first case every resolver of the list has been tried
  once, in order, and the error is \<^verbatim>\<open>all resolvers failed\<close>. In every case the exchanges
  go to a prefix of the list, one for each position: there is no second pass.
\<close>

theorem Resolve_errors:
  assumes "Resolve P d domain w = (r, evs, w')"
  shows "(isl r \<longleftrightarrow>
            (\<forall>x \<in> set (exchanges evs). \<not> completed x) \<or>
            (\<exists>resp. exchanges evs \<noteq> [] \<and> snd (snd (last (exchanges evs))) = Inr resp \<and>
                    Rcode resp \<noteq> RcodeSuccess)) \<and>
         (\<forall>resp. exchanges evs \<noteq> [] \<and> snd (snd (last (exchanges evs))) = Inr resp \<and>
                 Rcode resp \<noteq> RcodeSuccess \<longrightarrow>
                 r = Inl (''DNS error: '' @ show_int (Rcode resp))) \<and>
         (\<forall>x \<in> set (exchanges evs). completed x \<longrightarrow> x = last (exchanges evs)) \<and>
         (\<forall>i < length (exchanges evs).
             completed (exchanges evs ! i) \<longrightarrow> Suc i = length (exchanges evs)) \<and>
         ((\<forall>x \<in> set (exchanges evs). \<not> completed x) \<longrightarrow>
             r = Inl ''all resolvers failed'' \<and>
             map endpoint (exchanges evs) = Resolvers (Config d)) \<and>
         length (exchanges evs) \<le> length (Resolvers (Config d)) \<and>
         map endpoint (exchanges evs) = take (length (exchanges evs)) (Resolvers (Config d))"
proof -
  from assms have run:
    "Resolve_loop P (Config d) (Question (Fqdn P domain) TypeA) (Resolvers (Config d)) w =
       (r, evs, w')"
    by (simp add: Resolve_def)
  have a: "\<forall>resp. exchanges evs \<noteq> [] \<and> snd (snd (last (exchanges evs))) = Inr resp \<and>
                 Rcode resp \<noteq> RcodeSuccess \<longrightarrow>
                 r = Inl (''DNS error: '' @ show_int (Rcode resp))"
    using Resolve_loop_replied[OF run] by (auto simp: of_reply_def)
  have b: "(\<forall>x \<in> set (exchanges evs). \<not> completed x) \<longrightarrow>
             r = Inl ''all resolvers failed'' \<and>
             map endpoint (exchanges evs) = Resolvers (Config d)"
    using Resolve_loop_exhausted[OF run] Resolve_loop_endpoints[OF run] by auto
  show ?thesis
    using Resolve_loop_isl[OF run] a b Resolve_loop_completed_is_last[OF run]
      Resolve_loop_completed_last[OF run] Resolve_loop_length[OF run]
      Resolve_loop_endpoints[OF run]
    by blast
qed

theorem Resolve_errors_witness:
  "Resolve stub stub_enumerator ''api.example.com'' 0 =
     (Inl ''DNS error: 3'',
      [Exchanged (Question ''api.example.com.'' 1) ''192.0.2.1:53'' (Inl ''i/o timeout''),
       Exchanged (Question ''api.example.com.'' 1) ''192.0.2.2:53''
         (Inr (stub_zone ''api.example.com.''))],
      2) \<and>
   exchanges
     [Exchanged (Question ''api.example.com.'' 1) ''192.0.2.1:53'' (Inl ''i/o timeout''),
      Exchanged (Question ''api.example.com.'' 1) ''192.0.2.2:53''
        (Inr (stub_zone ''api.example.com.''))] \<noteq> [] \<and>
   snd (snd (last (exchanges
     [Exchanged (Question ''api.example.com.'' 1) ''192.0.2.1:53'' (Inl ''i/o timeout''),
      Exchanged (Question ''api.example.com.'' 1) ''192.0.2.2:53''
        (Inr (stub_zone ''api.example.com.''))]))) = Inr (stub_zone ''api.example.com.'') \<and>
   Rcode (stub_zone ''api.example.com.'') \<noteq> RcodeSuccess \<and>
   isl (Inl ''DNS error: 3'' :: string + string list) \<and>
   (Inl ''DNS error: 3'' :: string + string list) =
     Inl (''DNS error: '' @ show_int (Rcode (stub_zone ''api.example.com.'')))"
proof -
  have run: "Resolve stub stub_enumerator ''api.example.com'' 0 =
     (Inl ''DNS error: 3'',
      [Exchanged (Question ''api.example.com.'' 1) ''192.0.2.1:53'' (Inl ''i/o timeout''),
       Exchanged (Question ''api.example.com.'' 1) ''192.0.2.2:53''
         (Inr (stub_zone ''api.example.com.''))],
      2)"
    by (simp add: Resolve_def stub_def stub_enumerator_def stub_config_def stub_zone_def
          HasSuffix_def TypeA_def RcodeSuccess_def show_int_def show_digits.simps numeral_2_eq_2)
  have reply: "exchanges
     [Exchanged (Question ''api.example.com.'' 1) ''192.0.2.1:53'' (Inl ''i/o timeout''),
      Exchanged (Question ''api.example.com.'' 1) ''192.0.2.2:53''
        (Inr (stub_zone ''api.example.com.''))] \<noteq> [] \<and>
   snd (snd (last (exchanges
     [Exchanged (Question ''api.example.com.'' 1) ''192.0.2.1:53'' (Inl ''i/o timeout''),
      Exchanged (Question ''api.example.com.'' 1) ''192.0.2.2:53''
        (Inr (stub_zone ''api.example.com.''))]))) = Inr (stub_zone ''api.example.com.'') \<and>
   Rcode (stub_zone ''api.example.com.'') \<noteq> RcodeSuccess"
    by (simp add: stub_zone_def HasSuffix_def RcodeSuccess_def)
  from run reply Resolve_errors[OF run] show ?thesis by blast
qed

section \<open>Properties of the worker\<close>

lemma Resolve_sent: "Resolve P d domain w = (r, evs, w') \<Longrightarrow> sent evs = []"
  unfolding Resolve_def by (rule Resolve_loop_sent)

lemma isWildcardResponse_Nil: "\<not> isWildcardResponse d []"
  by (simp add: isWildcardResponse_def)

lemma ProcessDomain_sent:
  assumes "Resolve P d domain w = (r, evs, w')"
  shows "sent (fst (ProcessDomain P d domain w)) =
           (case r of
              Inl err \<Rightarrow> []
            | Inr ips \<Rightarrow>
                if WildcardCheck (Config d) \<and> isWildcardResponse d ips then []
                else [domain @ '' ['' @ Join ips '', '' @ '']''])"
  using assms Resolve_sent[OF assms]
  by (auto simp: ProcessDomain_def sent_append split: sum.splits)

text \<open>
  C10. When the exchange that ends \<^verbatim>\<open>Resolve\<close> is a reply with the success code, the
  result is the list of the addresses of the A records of its answer section, in the
  order of that section, and no error. When the answer section holds no A record, the
  result is the empty list, and the worker sends the line with empty brackets.
\<close>

theorem Resolve_success_addresses:
  assumes "Resolve P d domain w = (r, evs, w')"
    and "exchanges evs \<noteq> []"
    and "snd (snd (last (exchanges evs))) = Inr resp"
    and "Rcode resp = RcodeSuccess"
  shows "r = Inr [ip. A ip \<leftarrow> Answer resp] \<and>
         ((\<forall>rr \<in> set (Answer resp). \<forall>ip. rr \<noteq> A ip) \<longrightarrow>
            r = Inr [] \<and> sent (fst (ProcessDomain P d domain w)) = [domain @ '' []''])"
proof -
  from assms(1) have run:
    "Resolve_loop P (Config d) (Question (Fqdn P domain) TypeA) (Resolvers (Config d)) w =
       (r, evs, w')"
    by (simp add: Resolve_def)
  from Resolve_loop_replied[OF run assms(2,3)] assms(4)
  have r: "r = Inr [ip. A ip \<leftarrow> Answer resp]"
    by (simp add: of_reply_def answer_ips_A)
  have none: "[ip. A ip \<leftarrow> rrs] = []" if "\<forall>rr \<in> set rrs. \<forall>ip. rr \<noteq> A ip" for rrs
    using that by (induction rrs) (auto split: RR.splits)
  have "r = Inr [] \<and> sent (fst (ProcessDomain P d domain w)) = [domain @ '' []'']"
    if noA: "\<forall>rr \<in> set (Answer resp). \<forall>ip. rr \<noteq> A ip"
  proof -
    from r none[OF noA] have empty: "r = Inr []" by simp
    with ProcessDomain_sent[OF assms(1)] show ?thesis
      by (simp add: isWildcardResponse_Nil)
  qed
  with r show ?thesis by blast
qed

theorem Resolve_success_addresses_witness:
  "Resolve stub stub_enumerator ''alias.example.com'' 0 =
     (Inr [],
      [Exchanged (Question ''alias.example.com.'' 1) ''192.0.2.1:53'' (Inl ''i/o timeout''),
       Exchanged (Question ''alias.example.com.'' 1) ''192.0.2.2:53''
         (Inr \<lparr>Rcode = 0, Answer = [CNAME ''elsewhere.example.net.'']\<rparr>)],
      2) \<and>
   Rcode \<lparr>Rcode = 0, Answer = [CNAME ''elsewhere.example.net.'']\<rparr> = RcodeSuccess \<and>
   sent (fst (ProcessDomain stub stub_enumerator ''alias.example.com'' 0)) =
     [''alias.example.com'' @ '' []'']"
proof -
  let ?resp = "\<lparr>Rcode = 0, Answer = [CNAME ''elsewhere.example.net.'']\<rparr>"
  let ?evs = "[Exchanged (Question ''alias.example.com.'' 1) ''192.0.2.1:53'' (Inl ''i/o timeout''),
       Exchanged (Question ''alias.example.com.'' 1) ''192.0.2.2:53'' (Inr ?resp)]"
  have run: "Resolve stub stub_enumerator ''alias.example.com'' 0 = (Inr [], ?evs, 2)"
    by (simp add: Resolve_def stub_def stub_enumerator_def stub_config_def stub_zone_def
          HasSuffix_def TypeA_def RcodeSuccess_def numeral_2_eq_2)
  have ne: "exchanges ?evs \<noteq> []" by simp
  have reply: "snd (snd (last (exchanges ?evs))) = Inr ?resp" by simp
  have ok: "Rcode ?resp = RcodeSuccess" by (simp add: RcodeSuccess_def)
  have noA: "\<forall>rr \<in> set (Answer ?resp). \<forall>ip. rr \<noteq> A ip" by simp
  from Resolve_success_addresses[OF run ne reply ok] noA
  have "sent (fst (ProcessDomain stub stub_enumerator ''alias.example.com'' 0)) =
     [''alias.example.com'' @ '' []'']" by blast
  with run ok show ?thesis by blast
qed

text \<open>
  C4. The worker sends nothing when \<^verbatim>\<open>Resolve\<close> returns an error, and nothing when
  wildcard checking is on and the addresses are flagged as a wildcard response. In every
  other case it sends exactly one line: the name, a space, and between brackets the
  addresses joined by a comma and a space. A name that resolves to no address is never
  flagged, and its line has empty brackets.
\<close>

theorem ProcessDomain_emits:
  assumes "Resolve P d domain w = (r, evs, w')"
  shows "(isl r \<longrightarrow> sent (fst (ProcessDomain P d domain w)) = []) \<and>
         (\<forall>ips. r = Inr ips \<and> WildcardCheck (Config d) \<and> isWildcardResponse d ips \<longrightarrow>
                sent (fst (ProcessDomain P d domain w)) = []) \<and>
         (\<forall>ips. r = Inr ips \<and> \<not> (WildcardCheck (Config d) \<and> isWildcardResponse d ips) \<longrightarrow>
                sent (fst (ProcessDomain P d domain w)) =
                  [domain @ '' ['' @ Join ips '', '' @ '']'']) \<and>
         (r = Inr [] \<longrightarrow> sent (fst (ProcessDomain P d domain w)) = [domain @ '' []''])"
  using ProcessDomain_sent[OF assms]
  by (auto simp: isWildcardResponse_Nil split: sum.splits)

theorem ProcessDomain_emits_witness:
  "Resolve stub stub_enumerator ''www.example.com'' 0 =
     (Inr [''10.0.0.2'', ''10.0.0.3''],
      [Exchanged (Question ''www.example.com.'' 1) ''192.0.2.1:53'' (Inl ''i/o timeout''),
       Exchanged (Question ''www.example.com.'' 1) ''192.0.2.2:53''
         (Inr (stub_zone ''www.example.com.''))],
      2) \<and>
   \<not> (WildcardCheck (Config stub_enumerator) \<and>
      isWildcardResponse stub_enumerator [''10.0.0.2'', ''10.0.0.3'']) \<and>
   sent (fst (ProcessDomain stub stub_enumerator ''www.example.com'' 0)) =
     [''www.example.com [10.0.0.2, 10.0.0.3]'']"
proof -
  have run: "Resolve stub stub_enumerator ''www.example.com'' 0 =
     (Inr [''10.0.0.2'', ''10.0.0.3''],
      [Exchanged (Question ''www.example.com.'' 1) ''192.0.2.1:53'' (Inl ''i/o timeout''),
       Exchanged (Question ''www.example.com.'' 1) ''192.0.2.2:53''
         (Inr (stub_zone ''www.example.com.''))],
      2)"
    by (simp add: Resolve_def stub_def stub_enumerator_def stub_config_def stub_zone_def
          HasSuffix_def TypeA_def RcodeSuccess_def numeral_2_eq_2)
  have pass: "\<not> (WildcardCheck (Config stub_enumerator) \<and>
      isWildcardResponse stub_enumerator [''10.0.0.2'', ''10.0.0.3''])"
    by (simp add: isWildcardResponse_def stub_enumerator_def)
  from ProcessDomain_emits[OF run] pass
  have "sent (fst (ProcessDomain stub stub_enumerator ''www.example.com'' 0)) =
     [''www.example.com'' @ '' ['' @ Join [''10.0.0.2'', ''10.0.0.3''] '', '' @ '']'']"
    by blast
  then have "sent (fst (ProcessDomain stub stub_enumerator ''www.example.com'' 0)) =
     [''www.example.com [10.0.0.2, 10.0.0.3]'']"
    by simp
  with run pass show ?thesis by blast
qed

section \<open>The wildcard set\<close>

lemma wildcard_scan_iff:
  "wildcard_scan m ips \<longleftrightarrow> (\<exists>ip \<in> set ips. Mapping.lookup m ip = Some True)"
  by (induction ips) (auto simp: Mapping.lookup_default_def split: option.splits)

lemma WildcardIPSet_keys: "WildcardIPSet d \<subseteq> Mapping.keys (wildcardIPs d)"
  by (auto simp: WildcardIPSet_def keys_dom_lookup)

lemma isWildcardResponse_iff:
  "isWildcardResponse d ips \<longleftrightarrow> WildcardIPSet d \<noteq> {} \<and> set ips \<inter> WildcardIPSet d \<noteq> {}"
proof (cases "Mapping.is_empty (wildcardIPs d)")
  case True
  then have "Mapping.keys (wildcardIPs d) = {}" by (simp add: Mapping.is_empty_def)
  with WildcardIPSet_keys[of d] have "WildcardIPSet d = {}" by auto
  with True show ?thesis by (simp add: isWildcardResponse_def)
next
  case False
  then show ?thesis
    by (auto simp: isWildcardResponse_def wildcard_scan_iff WildcardIPSet_def)
qed

lemma Resolve_Config:
  "Config d1 = Config d \<Longrightarrow> Resolve P d1 domain w = Resolve P d domain w"
  by (simp add: Resolve_def)

lemma probe_loop_Config:
  "probe_loop P d domain subs w = (d', evs, w') \<Longrightarrow> Config d' = Config d"
proof (induction subs arbitrary: d w evs d' w')
  case Nil
  then show ?case by simp
next
  case (Cons sub rest)
  obtain r evs1 w1 where res: "Resolve P d (sub @ ''.'' @ domain) w = (r, evs1, w1)"
    by (cases "Resolve P d (sub @ ''.'' @ domain) w") auto
  define d1 where "d1 = (case r of Inl err \<Rightarrow> d
     | Inr ips \<Rightarrow> if length ips > 0 then d\<lparr>wildcardIPs := add_ips (wildcardIPs d) ips\<rparr> else d)"
  obtain d2 evs2 w2 where rec: "probe_loop P d1 domain rest w1 = (d2, evs2, w2)"
    by (cases "probe_loop P d1 domain rest w1") auto
  from Cons.prems res rec have "d' = d2" by (simp add: d1_def Let_def)
  moreover have "Config d1 = Config d" by (simp add: d1_def split: sum.splits)
  ultimately show ?case using Cons.IH[OF rec] by simp
qed

lemma DetectWildcard_Config:
  "DetectWildcard P d domain w = (d', evs, w') \<Longrightarrow> Config d' = Config d"
  by (auto simp: DetectWildcard_def split: if_splits prod.splits dest: probe_loop_Config)

lemma DetectWildcard_off:
  "\<not> WildcardCheck (Config d) \<Longrightarrow> DetectWildcard P d domain w = (d, [], w)"
  by (simp add: DetectWildcard_def)

lemma lookup_add_ips:
  "Mapping.lookup (add_ips m ips) ip = (if ip \<in> set ips then Some True else Mapping.lookup m ip)"
  by (induction ips arbitrary: m) (auto simp: Mapping.lookup_update')

lemma WildcardIPSet_add_ips:
  "WildcardIPSet (d\<lparr>wildcardIPs := add_ips (wildcardIPs d) ips\<rparr>) = WildcardIPSet d \<union> set ips"
  by (auto simp: WildcardIPSet_def lookup_add_ips)

lemma probe_loop_Cons:
  assumes "probe_loop P d domain (sub # rest) w = (d', evs, w')"
  obtains r evs1 w1 d1 evs2 where
    "Resolve P d (sub @ ''.'' @ domain) w = (r, evs1, w1)"
    "WildcardIPSet d1 = WildcardIPSet d \<union> resolved_ips r"
    "Config d1 = Config d"
    "probe_loop P d1 domain rest w1 = (d', evs2, w')"
    "evs = evs1 @ evs2"
proof -
  obtain r evs1 w1 where res: "Resolve P d (sub @ ''.'' @ domain) w = (r, evs1, w1)"
    by (cases "Resolve P d (sub @ ''.'' @ domain) w") auto
  define d1 where "d1 = (case r of Inl err \<Rightarrow> d
     | Inr ips \<Rightarrow> if length ips > 0 then d\<lparr>wildcardIPs := add_ips (wildcardIPs d) ips\<rparr> else d)"
  obtain d2 evs2 w2 where rec: "probe_loop P d1 domain rest w1 = (d2, evs2, w2)"
    by (cases "probe_loop P d1 domain rest w1") auto
  from assms res rec have eq: "d' = d2" "w' = w2" "evs = evs1 @ evs2"
    by (simp_all add: d1_def Let_def)
  have "WildcardIPSet d1 = WildcardIPSet d \<union> resolved_ips r"
    by (auto simp: d1_def resolved_ips_def WildcardIPSet_add_ips split: sum.splits)
  moreover have "Config d1 = Config d" by (simp add: d1_def split: sum.splits)
  ultimately show ?thesis using res rec eq by (intro that[of r evs1 w1 d1 evs2]) simp_all
qed

lemma probe_loop_mono:
  "probe_loop P d domain subs w = (d', evs, w') \<Longrightarrow> WildcardIPSet d \<subseteq> WildcardIPSet d'"
proof (induction subs arbitrary: d w evs)
  case Nil
  then show ?case by simp
next
  case (Cons sub rest)
  from Cons.prems show ?case
  proof (cases rule: probe_loop_Cons)
    case (1 r evs1 w1 d1 evs2)
    with Cons.IH[OF 1(4)] show ?thesis by auto
  qed
qed

lemma DetectWildcard_mono:
  "DetectWildcard P d domain w = (d', evs, w') \<Longrightarrow> WildcardIPSet d \<subseteq> WildcardIPSet d'"
  by (auto simp: DetectWildcard_def split: if_splits prod.splits dest: probe_loop_mono)

lemma Enumerate_loop_mono:
  "Enumerate_loop P limiter d reader w = (out, d', evs, w') \<Longrightarrow>
   WildcardIPSet d \<subseteq> WildcardIPSet d'"
proof (induction reader arbitrary: d w evs out d' w')
  case Nil
  then show ?case by simp
next
  case (Cons ln rest)
  show ?case
  proof (cases "TrimSpace ln = []")
    case True
    with Cons.prems Cons.IH show ?thesis by simp
  next
    case False
    define probe where "probe = (if WildcardCheck (Config d)
              then (case baseDomain_of (TrimSpace ln) of
                      Some baseDomain \<Rightarrow> DetectWildcard P d baseDomain w
                    | None \<Rightarrow> (d, [], w))
              else (d, [], w))"
    obtain d1 evs1 w1 where probe: "probe = (d1, evs1, w1)" by (cases probe) auto
    have mono1: "WildcardIPSet d \<subseteq> WildcardIPSet d1"
      using probe DetectWildcard_mono[of P d _ w d1 evs1 w1]
      by (auto simp: probe_def split: if_splits option.splits)
    show ?thesis
    proof (cases limiter)
      case None
      with Cons.prems False probe have "d' = d1" by (simp add: Let_def flip: probe_def)
      with mono1 show ?thesis by simp
    next
      case (Some period)
      obtain evs2 w2 where worker: "ProcessDomain P d1 (TrimSpace ln) w1 = (evs2, w2)"
        by (cases "ProcessDomain P d1 (TrimSpace ln) w1") auto
      obtain out3 d3 evs3 w3 where rec: "Enumerate_loop P limiter d1 rest w2 = (out3, d3, evs3, w3)"
        by (cases "Enumerate_loop P limiter d1 rest w2") auto
      from Cons.prems False probe Some worker rec have "d' = d3" "out = out3"
        by (simp_all add: Let_def flip: probe_def)
      with Cons.IH[OF rec] mono1 show ?thesis by auto
    qed
  qed
qed


lemma EnumerateFromReader_mono:
  "EnumerateFromReader P d reader w = (out, d', evs, w') \<Longrightarrow>
   WildcardIPSet d \<subseteq> WildcardIPSet d'"
  by (auto simp: EnumerateFromReader_def split: if_splits dest: Enumerate_loop_mono)

lemma Bruteforce_enumerator:
  assumes "Bruteforce P d domain wordlistPath w = (out, d', evs, w')"
  shows "d' = fst (DetectWildcard P d domain w)"
  using assms
  by (auto simp: Bruteforce_def split: prod.splits sum.splits if_splits outcome.splits)

lemma Bruteforce_mono:
  assumes "Bruteforce P d domain wordlistPath w = (out, d', evs, w')"
  shows "WildcardIPSet d \<subseteq> WildcardIPSet d'"
proof -
  obtain d1 evs1 w1 where probe: "DetectWildcard P d domain w = (d1, evs1, w1)"
    by (cases "DetectWildcard P d domain w") auto
  with Bruteforce_enumerator[OF assms] have "d' = d1" by simp
  with DetectWildcard_mono[OF probe] show ?thesis by simp
qed

text \<open>
  C7. A call of \<^verbatim>\<open>DetectWildcard\<close> only adds to the set of wildcard addresses. With
  wildcard checking off it changes nothing and makes no exchange. With wildcard checking
  on it resolves three names under the domain, one label made of the clock and the
  process id and two fixed labels, and the set afterwards is the set before together with
  the addresses that these three calls of \<^verbatim>\<open>Resolve\<close> returned: a call that returned an
  error adds nothing. The dispatch loops do not shrink the set either.
\<close>

theorem DetectWildcard_grows:
  assumes "DetectWildcard P d domain w = (d', evs, w')"
  shows "WildcardIPSet d \<subseteq> WildcardIPSet d' \<and>
         (\<not> WildcardCheck (Config d) \<longrightarrow> d' = d \<and> evs = []) \<and>
         (\<forall>r1 evs1 w1 r2 evs2 w2 r3 evs3 w3.
            WildcardCheck (Config d) \<and>
            Resolve P d ((''rand'' @ show_int (Unix_now P w) @ ''-'' @ show_int (Getpid P)) @
                         ''.'' @ domain) w = (r1, evs1, w1) \<and>
            Resolve P d (''probably-does-not-exist-123'' @ ''.'' @ domain) w1 = (r2, evs2, w2) \<and>
            Resolve P d (''test-subdomain-wildcard-456'' @ ''.'' @ domain) w2 = (r3, evs3, w3) \<longrightarrow>
            WildcardIPSet d' =
              WildcardIPSet d \<union> resolved_ips r1 \<union> resolved_ips r2 \<union> resolved_ips r3 \<and>
            exchanges evs = exchanges evs1 @ exchanges evs2 @ exchanges evs3) \<and>
         (\<forall>reader v out d2 evs2 v'.
            EnumerateFromReader P d reader v = (out, d2, evs2, v') \<longrightarrow>
            WildcardIPSet d \<subseteq> WildcardIPSet d2) \<and>
         (\<forall>base path v out d2 evs2 v'.
            Bruteforce P d base path v = (out, d2, evs2, v') \<longrightarrow>
            WildcardIPSet d \<subseteq> WildcardIPSet d2)"
proof -
  have exact: "WildcardIPSet d' =
              WildcardIPSet d \<union> resolved_ips r1 \<union> resolved_ips r2 \<union> resolved_ips r3 \<and>
            exchanges evs = exchanges evs1 @ exchanges evs2 @ exchanges evs3"
    if on: "WildcardCheck (Config d)"
      and r1: "Resolve P d ((''rand'' @ show_int (Unix_now P w) @ ''-'' @ show_int (Getpid P)) @
                         ''.'' @ domain) w = (r1, evs1, w1)"
      and r2: "Resolve P d (''probably-does-not-exist-123'' @ ''.'' @ domain) w1 = (r2, evs2, w2)"
      and r3: "Resolve P d (''test-subdomain-wildcard-456'' @ ''.'' @ domain) w2 = (r3, evs3, w3)"
    for r1 evs1 w1 r2 evs2 w2 r3 evs3 w3
  proof -
    obtain dl evsl wl where loop: "probe_loop P d domain (testSubdomains P w) w = (dl, evsl, wl)"
      by (cases "probe_loop P d domain (testSubdomains P w) w") auto
    with assms on have d': "d' = dl" and evs: "exchanges evs = exchanges evsl"
      by (auto simp: DetectWildcard_def exchanges_append)
    from loop[unfolded testSubdomains_def]
    obtain k1 e1 v1 d1 t1 where
      s1: "Resolve P d ((''rand'' @ show_int (Unix_now P w) @ ''-'' @ show_int (Getpid P)) @
                         ''.'' @ domain) w = (k1, e1, v1)"
        "WildcardIPSet d1 = WildcardIPSet d \<union> resolved_ips k1" "Config d1 = Config d"
        "probe_loop P d1 domain
           [''probably-does-not-exist-123'', ''test-subdomain-wildcard-456''] v1 = (dl, t1, wl)"
        "evsl = e1 @ t1"
      by (rule probe_loop_Cons)
    from s1(4) obtain k2 e2 v2 d2 t2 where
      s2: "Resolve P d1 (''probably-does-not-exist-123'' @ ''.'' @ domain) v1 = (k2, e2, v2)"
        "WildcardIPSet d2 = WildcardIPSet d1 \<union> resolved_ips k2" "Config d2 = Config d1"
        "probe_loop P d2 domain [''test-subdomain-wildcard-456''] v2 = (dl, t2, wl)"
        "t1 = e2 @ t2"
      by (rule probe_loop_Cons)
    from s2(4) obtain k3 e3 v3 d3 t3 where
      s3: "Resolve P d2 (''test-subdomain-wildcard-456'' @ ''.'' @ domain) v2 = (k3, e3, v3)"
        "WildcardIPSet d3 = WildcardIPSet d2 \<union> resolved_ips k3" "Config d3 = Config d2"
        "probe_loop P d3 domain [] v3 = (dl, t3, wl)"
        "t2 = e3 @ t3"
      by (rule probe_loop_Cons)
    from s1(1) r1 have a: "k1 = r1" "e1 = evs1" "v1 = w1" by simp_all
    from s2(1) r2 a s1(3) have b: "k2 = r2" "e2 = evs2" "v2 = w2"
      by (simp_all add: Resolve_Config[of d1 d])
    from s3(1) r3 b s1(3) s2(3) have c: "k3 = r3" "e3 = evs3"
      by (simp_all add: Resolve_Config[of d2 d])
    from s3(4) have "dl = d3" "t3 = []" by simp_all
    with d' evs s1 s2 s3 a b c show ?thesis by (simp add: exchanges_append)
  qed
  have off: "d' = d \<and> evs = []" if "\<not> WildcardCheck (Config d)"
    using assms that by (simp add: DetectWildcard_def)
  show ?thesis
    using DetectWildcard_mono[OF assms] off exact EnumerateFromReader_mono[of P d]
      Bruteforce_mono[of P d]
    by blast
qed

theorem DetectWildcard_grows_witness:
  "WildcardCheck (Config stub_enumerator) \<and>
   Resolve stub stub_enumerator
     ((''rand'' @ show_int (Unix_now stub 0) @ ''-'' @ show_int (Getpid stub)) @ ''.'' @ ''wild.test'')
     0 =
     (Inr [''203.0.113.9''],
      [Exchanged (Question ''rand1700000000-4242.wild.test.'' 1) ''192.0.2.1:53''
         (Inl ''i/o timeout''),
       Exchanged (Question ''rand1700000000-4242.wild.test.'' 1) ''192.0.2.2:53''
         (Inr \<lparr>Rcode = 0, Answer = [A ''203.0.113.9'']\<rparr>)],
      2) \<and>
   WildcardIPSet (fst (DetectWildcard stub stub_enumerator ''wild.test'' 0)) = {''203.0.113.9''}"
proof -
  let ?d' = "fst (DetectWildcard stub stub_enumerator ''wild.test'' 0)"
  let ?t1 = "[Exchanged (Question ''rand1700000000-4242.wild.test.'' 1) ''192.0.2.1:53''
         (Inl ''i/o timeout''),
       Exchanged (Question ''rand1700000000-4242.wild.test.'' 1) ''192.0.2.2:53''
         (Inr \<lparr>Rcode = 0, Answer = [A ''203.0.113.9'']\<rparr>)]"
  let ?t2 = "[Exchanged (Question ''probably-does-not-exist-123.wild.test.'' 1) ''192.0.2.1:53''
         (Inl ''i/o timeout''),
       Exchanged (Question ''probably-does-not-exist-123.wild.test.'' 1) ''192.0.2.2:53''
         (Inr \<lparr>Rcode = 0, Answer = [A ''203.0.113.9'']\<rparr>)]"
  let ?t3 = "[Exchanged (Question ''test-subdomain-wildcard-456.wild.test.'' 1) ''192.0.2.1:53''
         (Inl ''i/o timeout''),
       Exchanged (Question ''test-subdomain-wildcard-456.wild.test.'' 1) ''192.0.2.2:53''
         (Inr \<lparr>Rcode = 0, Answer = [A ''203.0.113.9'']\<rparr>)]"
  have run: "DetectWildcard stub stub_enumerator ''wild.test'' 0 =
      (?d', fst (snd (DetectWildcard stub stub_enumerator ''wild.test'' 0)),
       snd (snd (DetectWildcard stub stub_enumerator ''wild.test'' 0)))"
    by simp
  have on: "WildcardCheck (Config stub_enumerator)"
    by (simp add: stub_enumerator_def stub_config_def)
  have r1: "Resolve stub stub_enumerator
     ((''rand'' @ show_int (Unix_now stub 0) @ ''-'' @ show_int (Getpid stub)) @ ''.'' @ ''wild.test'')
     0 = (Inr [''203.0.113.9''], ?t1, 2)"
    by (simp add: Resolve_def stub_def stub_enumerator_def stub_config_def stub_zone_def
          HasSuffix_def TypeA_def RcodeSuccess_def show_int_def show_digits.simps numeral_2_eq_2)
  have r2: "Resolve stub stub_enumerator (''probably-does-not-exist-123'' @ ''.'' @ ''wild.test'') 2 =
      (Inr [''203.0.113.9''], ?t2, 4)"
    by (simp add: Resolve_def stub_def stub_enumerator_def stub_config_def stub_zone_def
          HasSuffix_def TypeA_def RcodeSuccess_def numeral_2_eq_2 eval_nat_numeral)
  have r3: "Resolve stub stub_enumerator (''test-subdomain-wildcard-456'' @ ''.'' @ ''wild.test'') 4 =
      (Inr [''203.0.113.9''], ?t3, 6)"
    by (simp add: Resolve_def stub_def stub_enumerator_def stub_config_def stub_zone_def
          HasSuffix_def TypeA_def RcodeSuccess_def numeral_2_eq_2 eval_nat_numeral)
  from DetectWildcard_grows[OF run]
  have "\<forall>r1 evs1 w1 r2 evs2 w2 r3 evs3 w3.
            WildcardCheck (Config stub_enumerator) \<and>
            Resolve stub stub_enumerator
              ((''rand'' @ show_int (Unix_now stub 0) @ ''-'' @ show_int (Getpid stub)) @
                         ''.'' @ ''wild.test'') 0 = (r1, evs1, w1) \<and>
            Resolve stub stub_enumerator (''probably-does-not-exist-123'' @ ''.'' @ ''wild.test'') w1 =
              (r2, evs2, w2) \<and>
            Resolve stub stub_enumerator (''test-subdomain-wildcard-456'' @ ''.'' @ ''wild.test'') w2 =
              (r3, evs3, w3) \<longrightarrow>
            WildcardIPSet ?d' =
              WildcardIPSet stub_enumerator \<union> resolved_ips r1 \<union> resolved_ips r2 \<union> resolved_ips r3 \<and>
            exchanges (fst (snd (DetectWildcard stub stub_enumerator ''wild.test'' 0))) =
              exchanges evs1 @ exchanges evs2 @ exchanges evs3"
    by (elim conjE)
  from this[rule_format, OF conjI[OF on conjI[OF r1 conjI[OF r2 r3]]]]
  have "WildcardIPSet ?d' = {''203.0.113.9''}"
    by (simp add: resolved_ips_def WildcardIPSet_def stub_enumerator_def)
  with on r1 show ?thesis by blast
qed

lemma stub_probe:
  "DetectWildcard stub stub_enumerator ''wild.test'' 0 =
     (stub_enumerator\<lparr>wildcardIPs :=
        Mapping.update ''203.0.113.9'' True
          (Mapping.update ''203.0.113.9'' True
             (Mapping.update ''203.0.113.9'' True Mapping.empty))\<rparr>,
      [Exchanged (Question ''rand1700000000-4242.wild.test.'' 1) ''192.0.2.1:53''
         (Inl ''i/o timeout''),
       Exchanged (Question ''rand1700000000-4242.wild.test.'' 1) ''192.0.2.2:53''
         (Inr \<lparr>Rcode = 0, Answer = [A ''203.0.113.9'']\<rparr>),
       Exchanged (Question ''probably-does-not-exist-123.wild.test.'' 1) ''192.0.2.1:53''
         (Inl ''i/o timeout''),
       Exchanged (Question ''probably-does-not-exist-123.wild.test.'' 1) ''192.0.2.2:53''
         (Inr \<lparr>Rcode = 0, Answer = [A ''203.0.113.9'']\<rparr>),
       Exchanged (Question ''test-subdomain-wildcard-456.wild.test.'' 1) ''192.0.2.1:53''
         (Inl ''i/o timeout''),
       Exchanged (Question ''test-subdomain-wildcard-456.wild.test.'' 1) ''192.0.2.2:53''
         (Inr \<lparr>Rcode = 0, Answer = [A ''203.0.113.9'']\<rparr>)],
      6)"
  by (simp add: DetectWildcard_def testSubdomains_def Resolve_def stub_def stub_enumerator_def
        stub_config_def stub_zone_def HasSuffix_def TypeA_def RcodeSuccess_def show_int_def
        show_digits.simps eval_nat_numeral)

text \<open>
  C3. \<^verbatim>\<open>isWildcardResponse\<close> holds of a list of addresses if and only if the set of
  wildcard addresses is not empty and one of the addresses is in it. So, once a probe has
  recorded an address, in the state that the probe leaves and in every later state (the
  same configuration, a set that has only grown), the worker sends nothing for a name
  that resolves to a list holding that address, and it sends the line of a name that
  resolves only to addresses outside the set.
\<close>

theorem isWildcardResponse_filter:
  "(isWildcardResponse d ips \<longleftrightarrow> WildcardIPSet d \<noteq> {} \<and> set ips \<inter> WildcardIPSet d \<noteq> {}) \<and>
   (DetectWildcard P dB base wB = (dA, evsP, wA) \<and> ip \<in> WildcardIPSet dA \<and>
    ip \<notin> WildcardIPSet dB \<and> Config d = Config dA \<and> WildcardIPSet dA \<subseteq> WildcardIPSet d \<and>
    Resolve P d name w = (Inr ips, evs, w') \<longrightarrow>
      (ip \<in> set ips \<longrightarrow> sent (fst (ProcessDomain P d name w)) = []) \<and>
      (set ips \<inter> WildcardIPSet d = {} \<longrightarrow>
         sent (fst (ProcessDomain P d name w)) = [name @ '' ['' @ Join ips '', '' @ '']'']))"
proof -
  have filter: "(ip \<in> set ips \<longrightarrow> sent (fst (ProcessDomain P d name w)) = []) \<and>
      (set ips \<inter> WildcardIPSet d = {} \<longrightarrow>
         sent (fst (ProcessDomain P d name w)) = [name @ '' ['' @ Join ips '', '' @ '']''])"
    if probe: "DetectWildcard P dB base wB = (dA, evsP, wA)"
      and new: "ip \<in> WildcardIPSet dA" "ip \<notin> WildcardIPSet dB"
      and later: "Config d = Config dA" "WildcardIPSet dA \<subseteq> WildcardIPSet d"
      and res: "Resolve P d name w = (Inr ips, evs, w')"
  proof -
    have "WildcardCheck (Config dB)"
    proof (rule ccontr)
      assume "\<not> WildcardCheck (Config dB)"
      with probe DetectWildcard_off[of dB P base wB] have "dA = dB" by simp
      with new show False by simp
    qed
    with DetectWildcard_Config[OF probe] later(1) have on: "WildcardCheck (Config d)" by simp
    from new(1) later(2) have hit: "ip \<in> set ips \<Longrightarrow> isWildcardResponse d ips"
      by (auto simp: isWildcardResponse_iff)
    have miss: "set ips \<inter> WildcardIPSet d = {} \<Longrightarrow> \<not> isWildcardResponse d ips"
      by (simp add: isWildcardResponse_iff)
    from ProcessDomain_sent[OF res] on hit miss show ?thesis by auto
  qed
  with isWildcardResponse_iff[of d ips] show ?thesis by blast
qed

theorem isWildcardResponse_filter_witness:
  "DetectWildcard stub stub_enumerator ''wild.test'' 0 =
     (fst (DetectWildcard stub stub_enumerator ''wild.test'' 0),
      fst (snd (DetectWildcard stub stub_enumerator ''wild.test'' 0)), 6) \<and>
   ''203.0.113.9'' \<in> WildcardIPSet (fst (DetectWildcard stub stub_enumerator ''wild.test'' 0)) \<and>
   ''203.0.113.9'' \<notin> WildcardIPSet stub_enumerator \<and>
   Resolve stub (fst (DetectWildcard stub stub_enumerator ''wild.test'' 0)) ''host.wild.test'' 6 =
     (Inr [''203.0.113.9''],
      [Exchanged (Question ''host.wild.test.'' 1) ''192.0.2.1:53'' (Inl ''i/o timeout''),
       Exchanged (Question ''host.wild.test.'' 1) ''192.0.2.2:53''
         (Inr \<lparr>Rcode = 0, Answer = [A ''203.0.113.9'']\<rparr>)],
      8) \<and>
   ''203.0.113.9'' \<in> set [''203.0.113.9''] \<and>
   sent (fst (ProcessDomain stub (fst (DetectWildcard stub stub_enumerator ''wild.test'' 0))
                ''host.wild.test'' 6)) = []"
proof -
  let ?d = "fst (DetectWildcard stub stub_enumerator ''wild.test'' 0)"
  have probe: "DetectWildcard stub stub_enumerator ''wild.test'' 0 =
     (?d, fst (snd (DetectWildcard stub stub_enumerator ''wild.test'' 0)), 6)"
    by (simp add: stub_probe)
  have new: "''203.0.113.9'' \<in> WildcardIPSet ?d"
    by (simp add: stub_probe WildcardIPSet_def)
  have old: "''203.0.113.9'' \<notin> WildcardIPSet stub_enumerator"
    by (simp add: WildcardIPSet_def stub_enumerator_def)
  have cfg: "Config ?d = Config stub_enumerator"
    by (simp add: stub_probe)
  have res: "Resolve stub ?d ''host.wild.test'' 6 =
     (Inr [''203.0.113.9''],
      [Exchanged (Question ''host.wild.test.'' 1) ''192.0.2.1:53'' (Inl ''i/o timeout''),
       Exchanged (Question ''host.wild.test.'' 1) ''192.0.2.2:53''
         (Inr \<lparr>Rcode = 0, Answer = [A ''203.0.113.9'']\<rparr>)],
      8)"
    unfolding Resolve_Config[OF cfg]
    by (simp add: Resolve_def stub_def stub_enumerator_def stub_config_def
          stub_zone_def HasSuffix_def TypeA_def RcodeSuccess_def eval_nat_numeral)
  have mem: "''203.0.113.9'' \<in> set [''203.0.113.9'']" by simp
  have same: "Config ?d = Config ?d" "WildcardIPSet ?d \<subseteq> WildcardIPSet ?d" by simp_all
  from isWildcardResponse_filter[where d = ?d and ips = "[''203.0.113.9'']" and P = stub
      and dB = stub_enumerator and base = "''wild.test''" and wB = 0 and dA = ?d
      and evsP = "fst (snd (DetectWildcard stub stub_enumerator ''wild.test'' 0))"
      and wA = 6 and ip = "''203.0.113.9''" and name = "''host.wild.test''" and w = 6
      and w' = 8,
      THEN conjunct2, rule_format,
      OF conjI[OF probe conjI[OF new conjI[OF old conjI[OF same(1) conjI[OF same(2) res]]]]]]
    mem
  have "sent (fst (ProcessDomain stub ?d ''host.wild.test'' 6)) = []"
    by blast
  with probe new old res mem show ?thesis by blast
qed

section \<open>Events of the parts\<close>

lemma spawned_append: "spawned (xs @ ys) = spawned xs @ spawned ys"
  by (induction xs rule: spawned.induct) simp_all

lemma Resolve_loop_spawned:
  "Resolve_loop P c msg rs w = (r, evs, w') \<Longrightarrow> spawned evs = []"
proof (induction rs arbitrary: w r evs w')
  case Nil
  then show ?case by simp
next
  case (Cons resolver rest)
  then show ?case
    by (auto simp: spawned_append split: prod.splits sum.splits if_splits)
qed

lemma Resolve_spawned: "Resolve P d domain w = (r, evs, w') \<Longrightarrow> spawned evs = []"
  unfolding Resolve_def by (rule Resolve_loop_spawned)

lemma ProcessDomain_spawned: "ProcessDomain P d domain w = (evs, w') \<Longrightarrow> spawned evs = []"
  by (auto simp: ProcessDomain_def spawned_append split: prod.splits sum.splits if_splits
      dest: Resolve_spawned)

lemma probe_loop_spawned:
  "probe_loop P d domain subs w = (d', evs, w') \<Longrightarrow> spawned evs = []"
proof (induction subs arbitrary: d w evs)
  case Nil
  then show ?case by simp
next
  case (Cons sub rest)
  from Cons.prems show ?case
  proof (cases rule: probe_loop_Cons)
    case (1 r evs1 w1 d1 evs2)
    with Cons.IH[OF 1(4)] Resolve_spawned[OF 1(1)] show ?thesis
      by (simp add: spawned_append)
  qed
qed

lemma probe_loop_sent:
  "probe_loop P d domain subs w = (d', evs, w') \<Longrightarrow> sent evs = []"
proof (induction subs arbitrary: d w evs)
  case Nil
  then show ?case by simp
next
  case (Cons sub rest)
  from Cons.prems show ?case
  proof (cases rule: probe_loop_Cons)
    case (1 r evs1 w1 d1 evs2)
    with Cons.IH[OF 1(4)] Resolve_sent[OF 1(1)] show ?thesis
      by (simp add: sent_append)
  qed
qed

lemma DetectWildcard_spawned:
  "DetectWildcard P d domain w = (d', evs, w') \<Longrightarrow> spawned evs = []"
  by (auto simp: DetectWildcard_def spawned_append split: if_splits prod.splits
      dest: probe_loop_spawned)

lemma DetectWildcard_sent:
  "DetectWildcard P d domain w = (d', evs, w') \<Longrightarrow> sent evs = []"
  by (auto simp: DetectWildcard_def sent_append split: if_splits prod.splits
      dest: probe_loop_sent)

section \<open>The loaders\<close>

lemma HasPrefix_char: "HasPrefix s [c] \<longleftrightarrow> s \<noteq> [] \<and> hd s = c"
  by (cases s) (simp_all add: HasPrefix_def)

lemma Contains_char: "Contains s [c] \<longleftrightarrow> c \<in> set s"
  by (induction s) (auto simp: HasPrefix_char)

lemma scan_resolvers_eq:
  "scan_resolvers lns =
     map (\<lambda>r. if CHR '':'' \<in> set r then r else r @ '':53'')
       (filter (\<lambda>r. r \<noteq> [] \<and> hd r \<noteq> CHR ''#'') (map TrimSpace lns))"
  by (induction lns)
    (auto simp: Let_def HasPrefix_char Contains_char JoinHostPort_def)

lemma limiter_Some:
  assumes "1 \<le> n" and "n \<le> 1000000000"
  shows "time_Tick (quo Second n) = Some (1000000000 div n)"
proof -
  from assms have "0 < (1000000000::int) div n"
    by (simp add: pos_imp_zdiv_pos_iff)
  with assms show ?thesis
    by (simp add: time_Tick_def quo_def Second_def)
qed

lemma Bruteforce_loop_spawned:
  "Bruteforce_loop P (Some period) d domain lns w = (out, evs, w') \<Longrightarrow>
   out = Returned \<and>
   spawned evs = map (\<lambda>sub. sub @ ''.'' @ domain) (filter (\<lambda>sub. sub \<noteq> []) (map TrimSpace lns))"
proof (induction lns arbitrary: w out evs w')
  case Nil
  then show ?case by simp
next
  case (Cons ln rest)
  show ?case
  proof (cases "TrimSpace ln = []")
    case True
    with Cons.prems Cons.IH show ?thesis by simp
  next
    case False
    obtain evs1 w1 where worker:
      "ProcessDomain P d (TrimSpace ln @ ''.'' @ domain) w = (evs1, w1)"
      by (cases "ProcessDomain P d (TrimSpace ln @ ''.'' @ domain) w") auto
    obtain out2 evs2 w2 where rec:
      "Bruteforce_loop P (Some period) d domain rest w1 = (out2, evs2, w2)"
      by (cases "Bruteforce_loop P (Some period) d domain rest w1") auto
    from Cons.prems False worker rec
    have "out = out2" "evs = [Tick, Go (TrimSpace ln @ ''.'' @ domain)] @ evs1 @ evs2"
      by (simp_all add: Let_def)
    with Cons.IH[OF rec] ProcessDomain_spawned[OF worker] False show ?thesis
      by (simp add: spawned_append)
  qed
qed

text \<open>Without a limiter the loop passes the blank lines and stops at the first name.\<close>

lemma Bruteforce_loop_nil:
  "Bruteforce_loop P None d domain lns w = (out, evs, w') \<Longrightarrow>
   evs = [] \<and> (out = Returned \<longrightarrow> filter (\<lambda>sub. sub \<noteq> []) (map TrimSpace lns) = [])"
proof (induction lns arbitrary: w out evs w')
  case Nil
  then show ?case by simp
next
  case (Cons ln rest)
  show ?case
  proof (cases "TrimSpace ln = []")
    case True
    with Cons.prems Cons.IH show ?thesis by simp
  next
    case False
    with Cons.prems show ?thesis by (simp add: Let_def)
  qed
qed

lemma Bruteforce_started:
  assumes opened: "Open P path = Inr (wordlist, scan_err)"
    and run: "Bruteforce P d domain path w = (out, d', evs, w')"
  shows "(\<exists>n. spawned evs =
            take n (map (\<lambda>sub. sub @ ''.'' @ domain)
                      (filter (\<lambda>sub. sub \<noteq> []) (map TrimSpace wordlist)))) \<and>
         (out = Returned \<longrightarrow>
            spawned evs =
              map (\<lambda>sub. sub @ ''.'' @ domain)
                (filter (\<lambda>sub. sub \<noteq> []) (map TrimSpace wordlist))) \<and>
         (1 \<le> RateLimit (Config d) \<and> RateLimit (Config d) \<le> 1000000000 \<longrightarrow> out = Returned)"
proof -
  let ?names = "map (\<lambda>sub. sub @ ''.'' @ domain)
                  (filter (\<lambda>sub. sub \<noteq> []) (map TrimSpace wordlist))"
  obtain d1 evs1 w1 where probe: "DetectWildcard P d domain w = (d1, evs1, w1)"
    by (cases "DetectWildcard P d domain w") auto
  note cfg = DetectWildcard_Config[OF probe]
  note quiet = DetectWildcard_spawned[OF probe]
  show ?thesis
  proof (cases "RateLimit (Config d1) = 0")
    case True
    with run opened probe have "evs = evs1" "out = Panicked"
      by (simp_all add: Bruteforce_def)
    with quiet True cfg have "spawned evs = take 0 ?names" "out \<noteq> Returned"
      "\<not> (1 \<le> RateLimit (Config d))"
      by simp_all
    then show ?thesis by blast
  next
    case False
    obtain out2 evs2 w2 where loop:
      "Bruteforce_loop P (time_Tick (quo Second (RateLimit (Config d1)))) d1 domain wordlist w1 =
         (out2, evs2, w2)"
      by (cases "Bruteforce_loop P (time_Tick (quo Second (RateLimit (Config d1)))) d1 domain
                   wordlist w1") auto
    from run opened probe False loop
    have out: "out = out2" and evs: "spawned evs = spawned evs1 @ spawned evs2"
      by (auto simp: Bruteforce_def spawned_append split: outcome.splits option.splits)
    show ?thesis
    proof (cases "time_Tick (quo Second (RateLimit (Config d1)))")
      case None
      with Bruteforce_loop_nil[of P d1 domain wordlist w1 out2 evs2 w2] loop
      have nil: "evs2 = []" "out2 = Returned \<longrightarrow> ?names = []"
        by simp_all
      have "\<not> (1 \<le> RateLimit (Config d) \<and> RateLimit (Config d) \<le> 1000000000)"
        using None limiter_Some[of "RateLimit (Config d)"] cfg by auto
      moreover from nil evs quiet have "spawned evs = take 0 ?names" by simp
      moreover from nil evs quiet out have "out = Returned \<longrightarrow> spawned evs = ?names" by simp
      ultimately show ?thesis by blast
    next
      case (Some period)
      with Bruteforce_loop_spawned[of P period d1 domain wordlist w1 out2 evs2 w2] loop
      have "out2 = Returned" "spawned evs2 = ?names" by simp_all
      with evs quiet out have "out = Returned" "spawned evs = take (length ?names) ?names"
        "spawned evs = ?names"
        by simp_all
      then show ?thesis by blast
    qed
  qed
qed

text \<open>
  C8. When the resolver file is read without error, \<^verbatim>\<open>LoadResolversFromFile\<close> returns its
  lines trimmed, in the order of the file, without the lines that are empty after
  trimming and without those that then start with \<^verbatim>\<open>#\<close>. A line with a colon is returned
  as it is; a line without one gets \<^verbatim>\<open>:53\<close> at its end. In brute-force mode the loop over
  the wordlist leaves out only the lines that are empty after trimming: the names for
  which workers are started are, in order, the trimmed non-empty lines, each followed by
  a dot and the domain, lines that start with \<^verbatim>\<open>#\<close> included. The loop may stop early (on
  a panic or a limiter that never ticks), and then the names started are the first ones of
  that list; when it returns they are the whole list, and it returns when the rate is
  between 1 and \<open>10\<^sup>9\<close>.
\<close>

theorem loaders_skip:
  "(Open P filename = Inr (lns, None) \<longrightarrow>
      LoadResolversFromFile P filename =
        Inr (map (\<lambda>r. if CHR '':'' \<in> set r then r else r @ '':53'')
               (filter (\<lambda>r. r \<noteq> [] \<and> hd r \<noteq> CHR ''#'') (map TrimSpace lns)))) \<and>
   (Open P path = Inr (wordlist, scan_err) \<and>
    Bruteforce P d domain path w = (out, d', evs, w') \<longrightarrow>
      (\<exists>n. spawned evs =
            take n (map (\<lambda>sub. sub @ ''.'' @ domain)
                      (filter (\<lambda>sub. sub \<noteq> []) (map TrimSpace wordlist)))) \<and>
      (out = Returned \<longrightarrow>
         spawned evs =
           map (\<lambda>sub. sub @ ''.'' @ domain)
             (filter (\<lambda>sub. sub \<noteq> []) (map TrimSpace wordlist))) \<and>
      (1 \<le> RateLimit (Config d) \<and> RateLimit (Config d) \<le> 1000000000 \<longrightarrow> out = Returned))"
proof -
  have "LoadResolversFromFile P filename =
        Inr (map (\<lambda>r. if CHR '':'' \<in> set r then r else r @ '':53'')
               (filter (\<lambda>r. r \<noteq> [] \<and> hd r \<noteq> CHR ''#'') (map TrimSpace lns)))"
    if "Open P filename = Inr (lns, None)"
    using that by (simp add: LoadResolversFromFile_def scan_resolvers_eq)
  with Bruteforce_started[of P path wordlist scan_err d domain w out d' evs w']
  show ?thesis by blast
qed

lemma stub_trimmed:
  "TrimSpace ''# public resolvers'' = ''# public resolvers''"
  "TrimSpace ''192.0.2.1'' = ''192.0.2.1''"
  "TrimSpace [] = []"
  "TrimSpace ''  192.0.2.2:5353  '' = ''192.0.2.2:5353''"
  "TrimSpace ''fe80::1%eth0'' = ''fe80::1%eth0''"
  "TrimSpace ''host%eth0'' = ''host%eth0''"
  "TrimSpace ''www'' = ''www''"
  "TrimSpace ''  '' = []"
  "TrimSpace ''#api'' = ''#api''"
  "TrimSpace ''alias '' = ''alias''"
  by (simp_all add: TrimSpace_def TrimLeftSpace.simps TrimRightSpace.simps space_runes_def
      HasPrefix_def HasSuffix_def)

theorem loaders_skip_witness:
  "Open stub ''resolvers.txt'' =
     Inr ([''# public resolvers'', ''192.0.2.1'', [], ''  192.0.2.2:5353  '', ''fe80::1%eth0'',
           ''host%eth0''], None) \<and>
   LoadResolversFromFile stub ''resolvers.txt'' =
     Inr [''192.0.2.1:53'', ''192.0.2.2:5353'', ''fe80::1%eth0'', ''host%eth0:53''] \<and>
   Open stub ''words.txt'' = Inr ([''www'', ''  '', ''#api'', ''alias ''], None) \<and>
   1 \<le> RateLimit (Config stub_enumerator) \<and> RateLimit (Config stub_enumerator) \<le> 1000000000 \<and>
   fst (Bruteforce stub stub_enumerator ''example.com'' ''words.txt'' 0) = Returned \<and>
   spawned (fst (snd (snd (Bruteforce stub stub_enumerator ''example.com'' ''words.txt'' 0)))) =
     [''www.example.com'', ''#api.example.com'', ''alias.example.com'']"
proof -
  let ?run = "Bruteforce stub stub_enumerator ''example.com'' ''words.txt'' 0"
  have f1: "Open stub ''resolvers.txt'' =
     Inr ([''# public resolvers'', ''192.0.2.1'', [], ''  192.0.2.2:5353  '', ''fe80::1%eth0'',
           ''host%eth0''], None)"
    by (simp add: stub_def stub_files_def)
  have f2: "Open stub ''words.txt'' = Inr ([''www'', ''  '', ''#api'', ''alias ''], None)"
    by (simp add: stub_def stub_files_def)
  have rate: "1 \<le> RateLimit (Config stub_enumerator) \<and>
    RateLimit (Config stub_enumerator) \<le> 1000000000"
    by (simp add: stub_enumerator_def stub_config_def)
  have run: "?run = (fst ?run, fst (snd ?run), fst (snd (snd ?run)), snd (snd (snd ?run)))"
    by simp
  from loaders_skip[of stub "''resolvers.txt''" _ "''words.txt''" _ None stub_enumerator
      "''example.com''" 0 "fst ?run" "fst (snd ?run)" "fst (snd (snd ?run))" "snd (snd (snd ?run))",
      THEN conjunct1, rule_format, OF f1]
  have a: "LoadResolversFromFile stub ''resolvers.txt'' =
     Inr [''192.0.2.1:53'', ''192.0.2.2:5353'', ''fe80::1%eth0'', ''host%eth0:53'']"
    by (simp add: stub_trimmed)
  note started = loaders_skip[of stub "''resolvers.txt''" _ "''words.txt''" _ None
      stub_enumerator "''example.com''" 0 "fst ?run" "fst (snd ?run)" "fst (snd (snd ?run))"
      "snd (snd (snd ?run))", THEN conjunct2, rule_format, OF conjI[OF f2 run]]
  from started[THEN conjunct2, THEN conjunct2, rule_format, OF rate]
  have b: "fst ?run = Returned" .
  from started[THEN conjunct2, THEN conjunct1, rule_format, OF b]
  have c: "spawned (fst (snd (snd ?run))) =
     [''www.example.com'', ''#api.example.com'', ''alias.example.com'']"
    by (simp add: stub_trimmed)
  from f1 a f2 rate b c show ?thesis by blast
qed

section \<open>One line for each worker\<close>

lemma ProcessDomain_line:
  "\<exists>res. sent (fst (ProcessDomain P d name w)) = line_of name res"
proof -
  obtain r evs w' where res: "Resolve P d name w = (r, evs, w')"
    by (cases "Resolve P d name w") auto
  show ?thesis
  proof (cases "sent (fst (ProcessDomain P d name w)) = []")
    case True
    then have "sent (fst (ProcessDomain P d name w)) = line_of name None"
      by (simp add: line_of_def)
    then show ?thesis ..
  next
    case False
    with ProcessDomain_sent[OF res] obtain ips where
      "sent (fst (ProcessDomain P d name w)) = line_of name (Some ips)"
      by (auto simp: line_of_def split: sum.splits if_splits)
    then show ?thesis ..
  qed
qed

lemma length_line_of: "length (line_of name res) \<le> 1"
  by (simp add: line_of_def split: option.splits)

lemma Enumerate_loop_lines:
  "Enumerate_loop P limiter d reader w = (out, d', evs, w') \<Longrightarrow>
   (\<exists>n. spawned evs = take n (filter (\<lambda>s. s \<noteq> []) (map TrimSpace reader))) \<and>
   (\<exists>results. length results = length (spawned evs) \<and>
              sent evs = concat (map2 line_of (spawned evs) results))"
proof (induction reader arbitrary: d w out d' evs w')
  case Nil
  then show ?case by simp
next
  case (Cons ln rest)
  show ?case
  proof (cases "TrimSpace ln = []")
    case True
    with Cons.prems Cons.IH show ?thesis by simp
  next
    case False
    define probe where "probe = (if WildcardCheck (Config d)
              then (case baseDomain_of (TrimSpace ln) of
                      Some baseDomain \<Rightarrow> DetectWildcard P d baseDomain w
                    | None \<Rightarrow> (d, [], w))
              else (d, [], w))"
    obtain d1 evs1 w1 where probe: "probe = (d1, evs1, w1)" by (cases probe) auto
    have quiet: "spawned evs1 = []" "sent evs1 = []"
      using probe DetectWildcard_spawned[of P d _ w d1 evs1 w1]
        DetectWildcard_sent[of P d _ w d1 evs1 w1]
      by (auto simp: probe_def split: if_splits option.splits)
    show ?thesis
    proof (cases limiter)
      case None
      with Cons.prems False probe have "evs = evs1" by (simp add: Let_def flip: probe_def)
      with quiet have "spawned evs = take 0 (filter (\<lambda>s. s \<noteq> []) (map TrimSpace (ln # rest)))"
        and "length ([] :: string list option list) = length (spawned evs) \<and>
             sent evs = concat (map2 line_of (spawned evs) [])"
        by simp_all
      then show ?thesis by blast
    next
      case (Some period)
      obtain evs2 w2 where worker: "ProcessDomain P d1 (TrimSpace ln) w1 = (evs2, w2)"
        by (cases "ProcessDomain P d1 (TrimSpace ln) w1") auto
      obtain out3 d3 evs3 w3 where rec: "Enumerate_loop P limiter d1 rest w2 = (out3, d3, evs3, w3)"
        by (cases "Enumerate_loop P limiter d1 rest w2") auto
      from Cons.prems False probe Some worker rec
      have evs: "evs = evs1 @ [Tick, Go (TrimSpace ln)] @ evs2 @ evs3"
        by (simp add: Let_def flip: probe_def)
      from Cons.IH[OF rec] obtain n results where
        n: "spawned evs3 = take n (filter (\<lambda>s. s \<noteq> []) (map TrimSpace rest))"
        and results: "length results = length (spawned evs3)"
          "sent evs3 = concat (map2 line_of (spawned evs3) results)"
        by blast
      from ProcessDomain_line[of P d1 "TrimSpace ln" w1] worker obtain res where
        res: "sent evs2 = line_of (TrimSpace ln) res"
        by auto
      from evs quiet ProcessDomain_spawned[OF worker]
      have sp: "spawned evs = TrimSpace ln # spawned evs3"
        by (simp add: spawned_append)
      with n False
      have "spawned evs = take (Suc n) (filter (\<lambda>s. s \<noteq> []) (map TrimSpace (ln # rest)))"
        by simp
      moreover from evs quiet res results sp
      have "length (res # results) = length (spawned evs) \<and>
            sent evs = concat (map2 line_of (spawned evs) (res # results))"
        by (simp add: sent_append)
      ultimately show ?thesis by blast
    qed
  qed
qed

lemma Bruteforce_loop_lines:
  "Bruteforce_loop P limiter d domain lns w = (out, evs, w') \<Longrightarrow>
   \<exists>results. length results = length (spawned evs) \<and>
             sent evs = concat (map2 line_of (spawned evs) results)"
proof (induction lns arbitrary: w out evs w')
  case Nil
  then show ?case by simp
next
  case (Cons ln rest)
  show ?case
  proof (cases "TrimSpace ln = []")
    case True
    with Cons.prems Cons.IH show ?thesis by simp
  next
    case False
    show ?thesis
    proof (cases limiter)
      case None
      with Cons.prems False have "evs = []" by (simp add: Let_def)
      then show ?thesis by simp
    next
      case (Some period)
      obtain evs1 w1 where worker:
        "ProcessDomain P d (TrimSpace ln @ ''.'' @ domain) w = (evs1, w1)"
        by (cases "ProcessDomain P d (TrimSpace ln @ ''.'' @ domain) w") auto
      obtain out2 evs2 w2 where rec:
        "Bruteforce_loop P limiter d domain rest w1 = (out2, evs2, w2)"
        by (cases "Bruteforce_loop P limiter d domain rest w1") auto
      from Cons.prems False Some worker rec
      have evs: "evs = [Tick, Go (TrimSpace ln @ ''.'' @ domain)] @ evs1 @ evs2"
        by (simp add: Let_def)
      from Cons.IH[OF rec] obtain results where
        results: "length results = length (spawned evs2)"
          "sent evs2 = concat (map2 line_of (spawned evs2) results)"
        by blast
      from ProcessDomain_line[of P d "TrimSpace ln @ ''.'' @ domain" w] worker obtain res where
        res: "sent evs1 = line_of (TrimSpace ln @ ''.'' @ domain) res"
        by auto
      from evs ProcessDomain_spawned[OF worker]
      have sp: "spawned evs = (TrimSpace ln @ ''.'' @ domain) # spawned evs2"
        by (simp add: spawned_append)
      from evs res results sp
      have "length (res # results) = length (spawned evs) \<and>
            sent evs = concat (map2 line_of (spawned evs) (res # results))"
        by (simp add: sent_append)
      then show ?thesis by blast
    qed
  qed
qed

lemma Bruteforce_lines:
  assumes "Bruteforce P d domain path w = (out, d', evs, w')"
  shows "\<exists>results. length results = length (spawned evs) \<and>
                   sent evs = concat (map2 line_of (spawned evs) results)"
proof -
  obtain d1 evs1 w1 where probe: "DetectWildcard P d domain w = (d1, evs1, w1)"
    by (cases "DetectWildcard P d domain w") auto
  note quiet = DetectWildcard_spawned[OF probe] DetectWildcard_sent[OF probe]
  show ?thesis
  proof (cases "Open P path")
    case (Inl err)
    with assms probe quiet have "spawned evs = []" "sent evs = []"
      by (auto simp: Bruteforce_def spawned_append sent_append)
    then show ?thesis by simp
  next
    case (Inr opened)
    obtain lns scan_err where opened: "opened = (lns, scan_err)" by (cases opened) auto
    show ?thesis
    proof (cases "RateLimit (Config d1) = 0")
      case True
      with assms probe quiet Inr opened have "spawned evs = []" "sent evs = []"
        by (auto simp: Bruteforce_def)
      then show ?thesis by simp
    next
      case False
      obtain out2 evs2 w2 where loop:
        "Bruteforce_loop P (time_Tick (quo Second (RateLimit (Config d1)))) d1 domain lns w1 =
           (out2, evs2, w2)"
        by (cases "Bruteforce_loop P (time_Tick (quo Second (RateLimit (Config d1)))) d1 domain lns w1")
          auto
      from assms probe quiet Inr opened False loop
      have "spawned evs = spawned evs2" "sent evs = sent evs2"
        by (auto simp: Bruteforce_def spawned_append sent_append
            split: outcome.splits option.splits)
      with Bruteforce_loop_lines[OF loop] show ?thesis by simp
    qed
  qed
qed

section \<open>Properties of runs\<close>

lemma admit_quiet:
  assumes "admit P mode d sub w = (d1, evs1, w1)"
  shows "spawned evs1 = []" and "sent evs1 = []"
  using assms DetectWildcard_spawned[of P d _ w d1 evs1 w1]
    DetectWildcard_sent[of P d _ w d1 evs1 w1]
  by (auto simp: admit_def split: mode.splits if_splits option.splits)

lemma runs_lines:
  assumes "runs P mode s0 s" and "waiting s0 = []" and "events s0 = []"
  shows "\<exists>finished results.
           mset finished + mset (waiting s) = mset (spawned (events s)) \<and>
           length results = length finished \<and>
           sent (events s) = concat (map2 line_of finished results)"
  using assms
proof (induction rule: runs.induct)
  case init
  then have "mset [] + mset (waiting s0) = mset (spawned (events s0)) \<and>
     length ([] :: string list option list) = length ([] :: string list) \<and>
     sent (events s0) = concat (map2 line_of [] [])"
    by simp
  then show ?case by blast
next
  case (blank s ln rest)
  then show ?case by simp
next
  case (start s ln rest d1 evs1 w1)
  from start.IH[OF start.prems] obtain finished results where
    inv: "mset finished + mset (waiting s) = mset (spawned (events s))"
      "length results = length finished"
      "sent (events s) = concat (map2 line_of finished results)"
    by blast
  with admit_quiet[OF start.hyps(4)]
  have "mset finished + mset (waiting s @ [name_of mode (TrimSpace ln)]) =
          mset (spawned (events s @ evs1 @ [Tick, Go (name_of mode (TrimSpace ln))])) \<and>
        length results = length finished \<and>
        sent (events s @ evs1 @ [Tick, Go (name_of mode (TrimSpace ln))]) =
          concat (map2 line_of finished results)"
    by (simp add: spawned_append sent_append)
  then show ?case
    by (intro exI[where x = finished] exI[where x = results]) simp
next
  case (work s before name after evs w1)
  from work.IH[OF work.prems] obtain finished results where
    inv: "mset finished + mset (waiting s) = mset (spawned (events s))"
      "length results = length finished"
      "sent (events s) = concat (map2 line_of finished results)"
    by blast
  from ProcessDomain_line[of P "enum s" name "world s"] work.hyps(3)
  obtain res where res: "sent evs = line_of name res" by auto
  from inv work.hyps(2) ProcessDomain_spawned[OF work.hyps(3)] res
  have "mset (finished @ [name]) + mset (before @ after) = mset (spawned (events s @ evs)) \<and>
        length (results @ [res]) = length (finished @ [name]) \<and>
        sent (events s @ evs) = concat (map2 line_of (finished @ [name]) (results @ [res]))"
    by (simp add: spawned_append sent_append)
  then show ?case
    by (intro exI[where x = "finished @ [name]"] exI[where x = "results @ [res]"]) simp
qed

lemma runs_names:
  assumes "runs P mode s0 s" and "events s0 = []"
  shows "map (name_of mode) (filter (\<lambda>sub. sub \<noteq> []) (map TrimSpace (unread s0))) =
         spawned (events s) @
         map (name_of mode) (filter (\<lambda>sub. sub \<noteq> []) (map TrimSpace (unread s)))"
  using assms
proof (induction rule: runs.induct)
  case init
  then show ?case by simp
next
  case (blank s ln rest)
  then show ?case by simp
next
  case (start s ln rest d1 evs1 w1)
  with admit_quiet[OF start.hyps(4)] show ?case
    by (simp add: spawned_append)
next
  case (work s before name after evs w1)
  with ProcessDomain_spawned[OF work.hyps(3)] show ?case
    by (simp add: spawned_append)
qed

lemma runs_trans:
  assumes "runs P mode s1 s2" and "runs P mode s0 s1"
  shows "runs P mode s0 s2"
  using assms
proof (induction rule: runs.induct)
  case init
  then show ?case .
next
  case (blank s ln rest)
  then show ?case by (auto intro: runs.blank)
next
  case (start s ln rest d1 evs1 w1)
  then show ?case by (auto intro: runs.start)
next
  case (work s before name after evs w1)
  then show ?case by (auto intro: runs.work)
qed

text \<open>The loops of the model are runs: those in which a worker runs as soon as it is started.\<close>

lemma Enumerate_loop_runs:
  "Enumerate_loop P (Some period) d reader w = (out, d', evs, w') \<Longrightarrow>
   runs P Streaming
     \<lparr>unread = reader, enum = d, world = w, waiting = [], events = tr\<rparr>
     \<lparr>unread = [], enum = d', world = w', waiting = [], events = tr @ evs\<rparr>"
proof (induction reader arbitrary: d w tr out d' evs w')
  case Nil
  then show ?case by (auto intro: runs.init)
next
  case (Cons ln rest)
  let ?s = "\<lparr>unread = ln # rest, enum = d, world = w, waiting = [], events = tr\<rparr>"
  show ?case
  proof (cases "TrimSpace ln = []")
    case True
    with Cons.prems have "Enumerate_loop P (Some period) d rest w = (out, d', evs, w')"
      by simp
    from Cons.IH[OF this, of tr]
    have rest: "runs P Streaming
       \<lparr>unread = rest, enum = d, world = w, waiting = [], events = tr\<rparr>
       \<lparr>unread = [], enum = d', world = w', waiting = [], events = tr @ evs\<rparr>" .
    have "runs P Streaming ?s ?s" by (rule runs.init)
    from runs.blank[OF this, of ln rest] True
    have "runs P Streaming ?s
       \<lparr>unread = rest, enum = d, world = w, waiting = [], events = tr\<rparr>"
      by simp
    with rest show ?thesis by (rule runs_trans)
  next
    case False
    obtain d1 evs1 w1 where probe:
      "admit P Streaming d (TrimSpace ln) w = (d1, evs1, w1)"
      by (cases "admit P Streaming d (TrimSpace ln) w") auto
    obtain evs2 w2 where worker: "ProcessDomain P d1 (TrimSpace ln) w1 = (evs2, w2)"
      by (cases "ProcessDomain P d1 (TrimSpace ln) w1") auto
    obtain out3 d3 evs3 w3 where rec:
      "Enumerate_loop P (Some period) d1 rest w2 = (out3, d3, evs3, w3)"
      by (cases "Enumerate_loop P (Some period) d1 rest w2") auto
    from Cons.prems False probe worker rec
    have eq: "d' = d3" "w' = w3" "evs = evs1 @ [Tick, Go (TrimSpace ln)] @ evs2 @ evs3"
      by (simp_all add: admit_def Let_def)
    have s0: "runs P Streaming ?s ?s" by (rule runs.init)
    have s1: "runs P Streaming ?s
       \<lparr>unread = rest, enum = d1, world = w1, waiting = [TrimSpace ln],
        events = tr @ evs1 @ [Tick, Go (TrimSpace ln)]\<rparr>"
      using runs.start[OF s0, of ln rest d1 evs1 w1] False probe
      by (simp add: name_of_def)
    have s2: "runs P Streaming ?s
       \<lparr>unread = rest, enum = d1, world = w2, waiting = [],
        events = tr @ evs1 @ [Tick, Go (TrimSpace ln)] @ evs2\<rparr>"
      using runs.work[OF s1, of "[]" "TrimSpace ln" "[]" evs2 w2] worker
      by simp
    from Cons.IH[OF rec, of "tr @ evs1 @ [Tick, Go (TrimSpace ln)] @ evs2"] eq
    have "runs P Streaming
       \<lparr>unread = rest, enum = d1, world = w2, waiting = [],
        events = tr @ evs1 @ [Tick, Go (TrimSpace ln)] @ evs2\<rparr>
       \<lparr>unread = [], enum = d', world = w', waiting = [], events = tr @ evs\<rparr>"
      by simp
    from this s2 show ?thesis by (rule runs_trans)
  qed
qed


lemma Bruteforce_loop_runs:
  "Bruteforce_loop P (Some period) d domain lns w = (out, evs, w') \<Longrightarrow>
   runs P (Bruteforcing domain)
     \<lparr>unread = lns, enum = d, world = w, waiting = [], events = tr\<rparr>
     \<lparr>unread = [], enum = d, world = w', waiting = [], events = tr @ evs\<rparr>"
proof (induction lns arbitrary: w tr out evs w')
  case Nil
  then show ?case by (auto intro: runs.init)
next
  case (Cons ln rest)
  let ?s = "\<lparr>unread = ln # rest, enum = d, world = w, waiting = [], events = tr\<rparr>"
  have s0: "runs P (Bruteforcing domain) ?s ?s" by (rule runs.init)
  show ?case
  proof (cases "TrimSpace ln = []")
    case True
    with Cons.prems have "Bruteforce_loop P (Some period) d domain rest w = (out, evs, w')"
      by simp
    from Cons.IH[OF this, of tr]
    have rest: "runs P (Bruteforcing domain)
       \<lparr>unread = rest, enum = d, world = w, waiting = [], events = tr\<rparr>
       \<lparr>unread = [], enum = d, world = w', waiting = [], events = tr @ evs\<rparr>" .
    from runs.blank[OF s0, of ln rest] True
    have "runs P (Bruteforcing domain) ?s
       \<lparr>unread = rest, enum = d, world = w, waiting = [], events = tr\<rparr>"
      by simp
    with rest show ?thesis by (rule runs_trans)
  next
    case False
    let ?name = "TrimSpace ln @ ''.'' @ domain"
    obtain evs1 w1 where worker: "ProcessDomain P d ?name w = (evs1, w1)"
      by (cases "ProcessDomain P d ?name w") auto
    obtain out2 evs2 w2 where rec:
      "Bruteforce_loop P (Some period) d domain rest w1 = (out2, evs2, w2)"
      by (cases "Bruteforce_loop P (Some period) d domain rest w1") auto
    from Cons.prems False worker rec
    have eq: "w' = w2" "evs = [Tick, Go ?name] @ evs1 @ evs2"
      by (simp_all add: Let_def)
    have s1: "runs P (Bruteforcing domain) ?s
       \<lparr>unread = rest, enum = d, world = w, waiting = [?name],
        events = tr @ [Tick, Go ?name]\<rparr>"
      using runs.start[OF s0, of ln rest d "[]" w] False
      by (simp add: name_of_def admit_def)
    have s2: "runs P (Bruteforcing domain) ?s
       \<lparr>unread = rest, enum = d, world = w1, waiting = [],
        events = tr @ [Tick, Go ?name] @ evs1\<rparr>"
      using runs.work[OF s1, of "[]" ?name "[]" evs1 w1] worker
      by simp
    from Cons.IH[OF rec, of "tr @ [Tick, Go ?name] @ evs1"] eq
    have "runs P (Bruteforcing domain)
       \<lparr>unread = rest, enum = d, world = w1, waiting = [],
        events = tr @ [Tick, Go ?name] @ evs1\<rparr>
       \<lparr>unread = [], enum = d, world = w', waiting = [], events = tr @ evs\<rparr>"
      by simp
    from this s2 show ?thesis by (rule runs_trans)
  qed
qed

lemma stub_bruteforce:
  "fst (Bruteforce stub stub_enumerator ''example.com'' ''words.txt'' 0) = Returned"
  "sent (fst (snd (snd (Bruteforce stub stub_enumerator ''example.com'' ''words.txt'' 0)))) =
     [''www.example.com [10.0.0.2, 10.0.0.3]'', ''alias.example.com []'']"
  "spawned (fst (snd (snd (Bruteforce stub stub_enumerator ''example.com'' ''words.txt'' 0)))) =
     [''www.example.com'', ''#api.example.com'', ''alias.example.com'']"
  by (simp_all add: Bruteforce_def DetectWildcard_def testSubdomains_def ProcessDomain_def
      Resolve_def isWildcardResponse_def stub_def stub_files_def stub_enumerator_def
      stub_config_def stub_zone_def stub_trimmed HasSuffix_def TypeA_def RcodeSuccess_def
      show_int_def show_digits.simps time_Tick_def quo_def Second_def Let_def)

text \<open>
  C5. One call of \<^verbatim>\<open>ProcessDomain\<close> sends at most one line, and a line it sends is the
  line of the name it was called with; this holds in every state of the enumerator and
  of the outside world. In either mode the names for which workers are started are
  trimmed, non-empty input lines taken in order, and the lines sent during the run are,
  worker by worker, nothing or the one line of that worker's name: no line is sent for a
  name for which no worker was started. The same holds when the workers run later and
  in any order: in every state that a run reaches, the lines sent so far are, for the
  workers that have run, nothing or the one line of the worker's name, and those workers
  together with the ones that still wait are the workers started.
\<close>

theorem one_line_per_name:
  "length (sent (fst (ProcessDomain P d name w))) \<le> 1 \<and>
   (\<exists>res. sent (fst (ProcessDomain P d name w)) = line_of name res) \<and>
   (EnumerateFromReader P d reader w = (out, d', evs, w') \<longrightarrow>
      (\<exists>n. spawned evs = take n (filter (\<lambda>s. s \<noteq> []) (map TrimSpace reader))) \<and>
      (\<exists>results. length results = length (spawned evs) \<and>
                 sent evs = concat (map2 line_of (spawned evs) results))) \<and>
   (Bruteforce P d domain path w = (out, d', evs, w') \<longrightarrow>
      (\<exists>results. length results = length (spawned evs) \<and>
                 sent evs = concat (map2 line_of (spawned evs) results))) \<and>
   (runs P mode s0 s \<and> waiting s0 = [] \<and> events s0 = [] \<longrightarrow>
      (\<exists>finished results.
          mset finished + mset (waiting s) = mset (spawned (events s)) \<and>
          length results = length finished \<and>
          sent (events s) = concat (map2 line_of finished results)) \<and>
      map (name_of mode) (filter (\<lambda>sub. sub \<noteq> []) (map TrimSpace (unread s0))) =
        spawned (events s) @
        map (name_of mode) (filter (\<lambda>sub. sub \<noteq> []) (map TrimSpace (unread s))))"
proof -
  obtain res where res: "sent (fst (ProcessDomain P d name w)) = line_of name res"
    using ProcessDomain_line[of P d name w] by blast
  then have one: "length (sent (fst (ProcessDomain P d name w))) \<le> 1"
    using length_line_of[of name res] by simp
  have stream: "(\<exists>n. spawned evs = take n (filter (\<lambda>s. s \<noteq> []) (map TrimSpace reader))) \<and>
      (\<exists>results. length results = length (spawned evs) \<and>
                 sent evs = concat (map2 line_of (spawned evs) results))"
    if run: "EnumerateFromReader P d reader w = (out, d', evs, w')"
  proof (cases "RateLimit (Config d) = 0")
    case True
    with run have "evs = []" by (simp add: EnumerateFromReader_def)
    then have "spawned evs = take 0 (filter (\<lambda>s. s \<noteq> []) (map TrimSpace reader))"
      and "length ([] :: string list option list) = length (spawned evs) \<and>
           sent evs = concat (map2 line_of (spawned evs) [])"
      by simp_all
    then show ?thesis by blast
  next
    case False
    with run show ?thesis
      by (simp add: EnumerateFromReader_def Enumerate_loop_lines)
  qed
  have later: "(\<exists>finished results.
          mset finished + mset (waiting s) = mset (spawned (events s)) \<and>
          length results = length finished \<and>
          sent (events s) = concat (map2 line_of finished results)) \<and>
      map (name_of mode) (filter (\<lambda>sub. sub \<noteq> []) (map TrimSpace (unread s0))) =
        spawned (events s) @
        map (name_of mode) (filter (\<lambda>sub. sub \<noteq> []) (map TrimSpace (unread s)))"
    if "runs P mode s0 s" "waiting s0 = []" "events s0 = []"
    using runs_lines[OF that] runs_names[OF that(1,3)] by (rule conjI)
  from one res stream later Bruteforce_lines[of P d domain path w out d' evs w']
  show ?thesis by blast
qed

theorem one_line_per_name_witness:
  "Bruteforce stub stub_enumerator ''example.com'' ''words.txt'' 0 =
     (fst (Bruteforce stub stub_enumerator ''example.com'' ''words.txt'' 0),
      fst (snd (Bruteforce stub stub_enumerator ''example.com'' ''words.txt'' 0)),
      fst (snd (snd (Bruteforce stub stub_enumerator ''example.com'' ''words.txt'' 0))),
      snd (snd (snd (Bruteforce stub stub_enumerator ''example.com'' ''words.txt'' 0)))) \<and>
   spawned (fst (snd (snd (Bruteforce stub stub_enumerator ''example.com'' ''words.txt'' 0)))) =
     [''www.example.com'', ''#api.example.com'', ''alias.example.com''] \<and>
   sent (fst (snd (snd (Bruteforce stub stub_enumerator ''example.com'' ''words.txt'' 0)))) =
     [''www.example.com [10.0.0.2, 10.0.0.3]'', ''alias.example.com []''] \<and>
   (\<exists>results.
      length results =
        length (spawned (fst (snd (snd (Bruteforce stub stub_enumerator ''example.com''
                                          ''words.txt'' 0))))) \<and>
      sent (fst (snd (snd (Bruteforce stub stub_enumerator ''example.com'' ''words.txt'' 0)))) =
        concat (map2 line_of
                  (spawned (fst (snd (snd (Bruteforce stub stub_enumerator ''example.com''
                                             ''words.txt'' 0)))))
                  results))"
proof -
  let ?run = "Bruteforce stub stub_enumerator ''example.com'' ''words.txt'' 0"
  have run: "?run = (fst ?run, fst (snd ?run), fst (snd (snd ?run)), snd (snd (snd ?run)))"
    by simp
  from one_line_per_name[of stub stub_enumerator "''www.example.com''" 0 "[]" "fst ?run"
      "fst (snd ?run)" "fst (snd (snd ?run))" "snd (snd (snd ?run))" "''example.com''"
      "''words.txt''", THEN conjunct2, THEN conjunct2, THEN conjunct2, THEN conjunct1,
      rule_format, OF run]
  have lines: "\<exists>results.
      length results = length (spawned (fst (snd (snd ?run)))) \<and>
      sent (fst (snd (snd ?run))) = concat (map2 line_of (spawned (fst (snd (snd ?run)))) results)" .
  from run stub_bruteforce(3) stub_bruteforce(2) lines show ?thesis by (intro conjI)
qed

section \<open>Start-up errors\<close>

lemma main_unreadable_resolver_file:
  assumes "\<not> f_version f" and "f_resolverFile f \<noteq> []"
    and "Open P (f_resolverFile f) = Inl err"
  shows "main P f inp w =
           (Exit 1, [Stderr (''Error loading resolvers from file: '' @ err @ [CHR 0x0A])], w)"
  using assms by (simp add: main_def main_resolvers_def LoadResolversFromFile_def)

lemma main_no_resolvers:
  assumes "\<not> f_version f" and "main_resolvers P f = Inr []"
  shows "main P f inp w = (Exit 1, [Stderr (''No DNS resolvers specified'' @ [CHR 0x0A])], w)"
  using assms by (simp add: main_def)

lemma Split_not_Nil: "Split s sep \<noteq> []"
  by (induction s) (auto split: list.splits)

lemma main_resolver_list_never_empty:
  "f_resolverFile f = [] \<Longrightarrow> main_resolvers P f \<noteq> Inr []"
  by (simp add: main_resolvers_def Split_not_Nil)

lemma wordlist_error_exit_status:
  assumes "\<not> f_version f" and "main_resolvers P f = Inr resolvers" and "resolvers \<noteq> []"
    and "NewDNSEnumerator P (main_config f resolvers) = Inr enumerator"
    and "f_domain f \<noteq> []" and "f_wordlist f \<noteq> []"
    and "Open P (f_wordlist f) = Inl err"
  shows "fst (main P f inp w) = Exit 0"
  using assms
  by (simp add: main_def main_run_def Bruteforce_def ending_of_def split: prod.splits)

text \<open>
  C6. The run of the command line above: the wordlist cannot be opened. Six exchanges
  are made first (the three probes of the wildcard detection, each tried on two
  resolvers), then the error is written to the error stream, and the process ends with
  status 0.
\<close>

theorem main_unreadable_wordlist:
  "Open stub (f_wordlist stub_flags) = Inl ''open missing.txt: no such file or directory'' \<and>
   fst (main stub stub_flags stub_stdin 0) = Exit 0 \<and>
   map endpoint (exchanges (fst (snd (main stub stub_flags stub_stdin 0)))) =
     [''192.0.2.1:53'', ''192.0.2.2:53'', ''192.0.2.1:53'', ''192.0.2.2:53'',
      ''192.0.2.1:53'', ''192.0.2.2:53''] \<and>
   last (fst (snd (main stub stub_flags stub_stdin 0))) =
     Stderr (''Error opening wordlist: open missing.txt: no such file or directory'' @ [CHR 0x0A])"
  by (simp add: main_def main_resolvers_def main_config_def main_run_def NewDNSEnumerator_def
      Bruteforce_def DetectWildcard_def testSubdomains_def Resolve_def ending_of_def
      stub_flags_def stub_stdin_def stub_def stub_files_def stub_zone_def HasSuffix_def
      TypeA_def RcodeSuccess_def show_int_def show_digits.simps endpoint_def Let_def)

section \<open>Rates without ticks\<close>

text \<open>
  Outside the rates from 1 to \<open>10\<^sup>9\<close> there is no tick: the period is not positive, the
  limiter is \<^verbatim>\<open>nil\<close>, and the loop blocks at the first name it would admit.
\<close>

lemma limiter_nil:
  assumes "n < 0 \<or> 1000000000 < n"
  shows "time_Tick (quo Second n) = None"
proof -
  have "quo Second n \<le> 0"
  proof (cases "n < 0")
    case True
    then have "0 \<le> (1000000000::int) div \<bar>n\<bar>" by (simp add: pos_imp_zdiv_nonneg_iff)
    with True show ?thesis by (simp add: quo_def Second_def)
  next
    case False
    with assms have "1000000000 < n" by simp
    then have "(1000000000::int) div n = 0" by simp
    with \<open>1000000000 < n\<close> show ?thesis by (simp add: quo_def Second_def)
  qed
  then show ?thesis by (simp add: time_Tick_def)
qed

lemma Enumerate_loop_blocked:
  "Enumerate_loop P None d reader w = (out, d', evs, w') \<Longrightarrow> spawned evs = []"
proof (induction reader arbitrary: d w out d' evs w')
  case Nil
  then show ?case by simp
next
  case (Cons ln rest)
  show ?case
  proof (cases "TrimSpace ln = []")
    case True
    with Cons.prems Cons.IH show ?thesis by simp
  next
    case False
    obtain d1 evs1 w1 where probe: "admit P Streaming d (TrimSpace ln) w = (d1, evs1, w1)"
      by (cases "admit P Streaming d (TrimSpace ln) w") auto
    with Cons.prems False have "evs = evs1" by (simp add: admit_def Let_def)
    with admit_quiet(1)[OF probe] show ?thesis by simp
  qed
qed

section \<open>One tick for each worker\<close>




















section \<open>The limiter in time\<close>











end
